theory Spec2Isabelle
  imports Complex_Main "HOL-Library.Word"
begin

unbundle bit_operations_syntax

section \<open>JavaScript values\<close>

text \<open>
  A JavaScript number is an IEEE double.  The finite doubles are real numbers;
  \<open>Val 0\<close> is \<open>+0\<close> and the negative zero is a value of its own, so that two
  numbers are the same value (\<open>Object.is\<close>) exactly when they are the same term.
\<close>

datatype jsnum = NaN | NegZero | PosInf | NegInf | Val real

text \<open>Position of a number on the extended real line; \<open>NaN\<close> has none.\<close>

fun num_pos :: "jsnum \<Rightarrow> (int \<times> real) option" where
  "num_pos NaN = None"
| "num_pos NegInf = Some (- 1, 0)"
| "num_pos PosInf = Some (1, 0)"
| "num_pos NegZero = Some (0, 0)"
| "num_pos (Val r) = Some (0, r)"

text \<open>The operators \<open>x >= y\<close> and \<open>x < y\<close> on numbers: false when either is \<open>NaN\<close>.\<close>

definition num_ge :: "jsnum \<Rightarrow> jsnum \<Rightarrow> bool" where
  "num_ge x y =
     (case (num_pos x, num_pos y) of
        (Some (i, a), Some (j, b)) \<Rightarrow> j < i \<or> (j = i \<and> b \<le> a)
      | _ \<Rightarrow> False)"

definition num_lt :: "jsnum \<Rightarrow> jsnum \<Rightarrow> bool" where
  "num_lt x y =
     (case (num_pos x, num_pos y) of
        (Some (i, a), Some (j, b)) \<Rightarrow> i < j \<or> (i = j \<and> a < b)
      | _ \<Rightarrow> False)"

text \<open>
  The kinds of object the engine tells apart (\<open>isArray\<close>, \<open>isMap\<close>), and an object
  as its kind and its identity.
\<close>

datatype target_kind = PlainObject | ArrayObject | MapObject | OtherObject

datatype target = Target (kind_of: target_kind) (ident: nat)

definition isArray :: "target \<Rightarrow> bool" where
  "isArray t = (kind_of t = ArrayObject)"

definition isMap :: "target \<Rightarrow> bool" where
  "isMap t = (kind_of t = MapObject)"

text \<open>
  Values: the primitives, a raw object, an observed wrapper of an object (with its
  read-only and shallow modes) and a ref-like box (with its read-only flag).
\<close>

datatype jsval =
    VUndefined
  | VNull
  | VBool bool
  | VNum jsnum
  | VStr string
  | VSym nat
  | VObj target
  | VWrapper target bool bool
  | VRef nat bool

text \<open>A property key is a string or a symbol.\<close>

datatype key = KStr string | KSym nat

definition ITERATE_KEY :: key where
  "ITERATE_KEY = KSym 0"

definition MAP_KEY_ITERATE_KEY :: key where
  "MAP_KEY_ITERATE_KEY = KSym 1"

text \<open>
  The conversions between strings and numbers belong to the language, not to the
  repository.  They are parameters of the model: every theorem below holds for every
  choice of them.
\<close>

record builtins =
  StringToNumber :: "string \<Rightarrow> jsnum"
  parseInt10 :: "string \<Rightarrow> jsnum"
  NumberToString :: "jsnum \<Rightarrow> string"
  ObjectToNumber :: "jsval \<Rightarrow> jsnum option"

text \<open>\<open>Number(v)\<close>; \<open>None\<close> is the \<open>TypeError\<close> of a symbol.\<close>

fun ToNumber :: "builtins \<Rightarrow> jsval \<Rightarrow> jsnum option" where
  "ToNumber B VUndefined = Some NaN"
| "ToNumber B VNull = Some (Val 0)"
| "ToNumber B (VBool b) = Some (Val (if b then 1 else 0))"
| "ToNumber B (VNum x) = Some x"
| "ToNumber B (VStr s) = Some (StringToNumber B s)"
| "ToNumber B (VSym _) = None"
| "ToNumber B v = ObjectToNumber B v"

text \<open>
  \<open>key >= newLength\<close> for a key of the dependency map: a string is converted to a
  number, a symbol raises \<open>TypeError\<close> (\<open>None\<close>).
\<close>

fun key_ge :: "builtins \<Rightarrow> key \<Rightarrow> jsnum \<Rightarrow> bool option" where
  "key_ge B (KStr s) x = Some (num_ge (StringToNumber B s) x)"
| "key_ge B (KSym _) x = None"

text \<open>
  \<open>isIntegerKey\<close> of \<open>@vue/shared\<close>:
  \<open>isString(key) && key !== 'NaN' && key[0] !== '-' && '' + parseInt(key, 10) === key\<close>.
\<close>

fun isIntegerKey :: "builtins \<Rightarrow> key \<Rightarrow> bool" where
  "isIntegerKey B (KStr s) =
     (s \<noteq> ''NaN'' \<and> (case s of [] \<Rightarrow> True | c # _ \<Rightarrow> c \<noteq> CHR ''-'')
      \<and> NumberToString B (parseInt10 B s) = s)"
| "isIntegerKey B (KSym _) = False"

text \<open>\<open>hasChanged\<close> of \<open>@vue/shared\<close>: \<open>!Object.is(value, oldValue)\<close>.\<close>

definition Object_is :: "jsval \<Rightarrow> jsval \<Rightarrow> bool" where
  "Object_is x y = (x = y)"

definition hasChanged :: "jsval \<Rightarrow> jsval \<Rightarrow> bool" where
  "hasChanged v oldValue = (\<not> Object_is v oldValue)"

text \<open>Strict equality \<open>===\<close>, for comparison: \<open>NaN\<close> differs from itself, the zeros agree.\<close>

fun strict_equal :: "jsval \<Rightarrow> jsval \<Rightarrow> bool" where
  "strict_equal (VNum x) (VNum y) =
     (x \<noteq> NaN \<and> y \<noteq> NaN \<and> (x = y \<or> (x = NegZero \<and> y = Val 0) \<or> (x = Val 0 \<and> y = NegZero)))"
| "strict_equal x y = (x = y)"

datatype TrackOpTypes = GET | HAS | ITERATE

datatype TriggerOpTypes = SET | ADD | DELETE | CLEAR

section \<open>Sets and maps in insertion order\<close>

text \<open>
  A JavaScript \<open>Set\<close> holds each element once and iterates in insertion order: a list
  without repetition.
\<close>

typedef 'a jsset = "{xs :: 'a list. distinct xs}"
  morphisms elems Abs_jsset
  by (rule exI [of _ "[]"]) simp

setup_lifting type_definition_jsset

lift_definition Set_empty :: "'a jsset" is "[]"
  by simp

lift_definition Set_add :: "'a \<Rightarrow> 'a jsset \<Rightarrow> 'a jsset" is
  "\<lambda>x xs. if x \<in> set xs then xs else xs @ [x]"
  by auto

lift_definition Set_delete :: "'a \<Rightarrow> 'a jsset \<Rightarrow> 'a jsset" is
  "\<lambda>x xs. removeAll x xs"
  by (simp add: distinct_removeAll)

definition Set_has :: "'a \<Rightarrow> 'a jsset \<Rightarrow> bool" where
  "Set_has x S = (x \<in> set (elems S))"

text \<open>\<open>new Set(iterable)\<close>: the elements are added one after the other.\<close>

fun add_all :: "'a list \<Rightarrow> 'a list \<Rightarrow> 'a list" where
  "add_all acc [] = acc"
| "add_all acc (x # xs) = add_all (if x \<in> set acc then acc else acc @ [x]) xs"

lemma distinct_add_all: "distinct acc \<Longrightarrow> distinct (add_all acc xs)"
  by (induction xs arbitrary: acc) auto

lemma set_add_all: "set (add_all acc xs) = set acc \<union> set xs"
  by (induction xs arbitrary: acc) auto

lift_definition Set_of_list :: "'a list \<Rightarrow> 'a jsset" is "\<lambda>xs. add_all [] xs"
  by (simp add: distinct_add_all)

text \<open>
  A JavaScript \<open>Map\<close> holds each key once and iterates in insertion order: an
  association list without repeated keys.
\<close>

typedef ('k, 'v) jsmap = "{kvs :: ('k \<times> 'v) list. distinct (map fst kvs)}"
  morphisms entries Abs_jsmap
  by (rule exI [of _ "[]"]) simp

setup_lifting type_definition_jsmap

lift_definition Map_empty :: "('k, 'v) jsmap" is "[]"
  by simp

definition Map_get :: "('k, 'v) jsmap \<Rightarrow> 'k \<Rightarrow> 'v option" where
  "Map_get m k = map_of (entries m) k"

text \<open>\<open>map.set(k, v)\<close>: an existing key keeps its place, a new key goes last.\<close>

definition alist_set :: "'k \<Rightarrow> 'v \<Rightarrow> ('k \<times> 'v) list \<Rightarrow> ('k \<times> 'v) list" where
  "alist_set k v kvs =
     (if k \<in> fst ` set kvs then map (\<lambda>(k', v'). if k' = k then (k', v) else (k', v')) kvs
      else kvs @ [(k, v)])"

lemma map_fst_alist_set:
  "map fst (alist_set k v kvs) = (if k \<in> fst ` set kvs then map fst kvs else map fst kvs @ [k])"
  by (induction kvs) (auto simp: alist_set_def)

lemma distinct_alist_set: "distinct (map fst kvs) \<Longrightarrow> distinct (map fst (alist_set k v kvs))"
  by (simp add: map_fst_alist_set)

lift_definition Map_set :: "'k \<Rightarrow> 'v \<Rightarrow> ('k, 'v) jsmap \<Rightarrow> ('k, 'v) jsmap" is alist_set
  by (rule distinct_alist_set)

section \<open>The state of the engine\<close>

type_synonym eid = nat  \<comment> \<open>the identity of a \<open>ReactiveEffect\<close> object\<close>
type_synonym depid = nat  \<comment> \<open>the identity (address) of a \<open>Dep\<close> object\<close>

text \<open>
  A \<open>Dep\<close> (\<open>Set<ReactiveEffect> & TrackedMarkers\<close>): the set of subscribed effects
  and the two marker words \<open>w\<close> (was tracked) and \<open>n\<close> (newly tracked).  The bitwise
  operators of JavaScript work on 32-bit integers.
\<close>

record dep =
  subs :: "eid jsset"
  dep_w :: "32 word"
  dep_n :: "32 word"

text \<open>
  What the body of an effect (\<open>fn\<close>) does to the engine, step by step: a tracked read,
  a write that triggers, a call of another effect's \<open>run\<close> or \<open>stop\<close>, the three
  tracking switches, an observable side effect of its own, and a failure.
\<close>

datatype cmd =
    CTrack target TrackOpTypes key
  | CTrigger target TriggerOpTypes "key option" jsval
  | CRun eid
  | CStop eid
  | CPauseTracking
  | CEnableTracking
  | CResetTracking
  | COutput nat
  | CThrow

text \<open>
  A \<open>ReactiveEffect\<close>.  \<open>computed\<close>, \<open>scheduler\<close> and \<open>onStop\<close> record whether the
  field is set; the callbacks themselves are the caller's.
\<close>

record effect =
  active :: bool
  deps :: "depid list"
  parent :: "eid option"
  computed :: bool
  allowRecurse :: bool
  deferStop :: bool
  onStop :: bool
  scheduler :: bool
  fn :: "cmd list"

text \<open>What the caller can observe: its callbacks being called, and the bodies' own effects.\<close>

datatype event = SchedulerCalled eid | OnStopCalled eid | Output nat

text \<open>
  The module state of \<open>effect.ts\<close>, with the \<open>Dep\<close> and \<open>ReactiveEffect\<close> objects in
  two heaps, since a \<open>Dep\<close> is shared between \<open>targetMap\<close> and the \<open>deps\<close> of the effects.
\<close>

record state =
  targetMap :: "target \<Rightarrow> (key, depid) jsmap option"
  depHeap :: "depid \<Rightarrow> dep"
  nextDep :: depid
  effectHeap :: "eid \<Rightarrow> effect"
  activeEffect :: "eid option"
  shouldTrack :: bool
  trackStack :: "bool list"
  effectTrackDepth :: int
  trackOpBit :: "32 word"
  trace :: "event list"

definition maxMarkerBits :: int where
  "maxMarkerBits = 30"

text \<open>\<open>1 << d\<close>: the shift count is taken modulo 32.\<close>

definition shl1 :: "int \<Rightarrow> 32 word" where
  "shl1 d = push_bit (nat (d mod 32)) 1"

definition upd_dep :: "depid \<Rightarrow> (dep \<Rightarrow> dep) \<Rightarrow> state \<Rightarrow> state" where
  "upd_dep d f s = s\<lparr>depHeap := (depHeap s)(d := f (depHeap s d))\<rparr>"

definition upd_effect :: "eid \<Rightarrow> (effect \<Rightarrow> effect) \<Rightarrow> state \<Rightarrow> state" where
  "upd_effect e f s = s\<lparr>effectHeap := (effectHeap s)(e := f (effectHeap s e))\<rparr>"

subsection \<open>dep.ts\<close>

text \<open>\<open>createDep()\<close>: a new \<open>Dep\<close> object at a fresh address.\<close>

definition createDep :: "eid list \<Rightarrow> state \<Rightarrow> depid \<times> state" where
  "createDep effects s =
     (nextDep s,
      s\<lparr>depHeap := (depHeap s)(nextDep s := \<lparr>subs = Set_of_list effects, dep_w = 0, dep_n = 0\<rparr>),
        nextDep := Suc (nextDep s)\<rparr>)"

definition wasTracked :: "state \<Rightarrow> depid \<Rightarrow> bool" where
  "wasTracked s d = (0 < sint (dep_w (depHeap s d) AND trackOpBit s))"

definition newTracked :: "state \<Rightarrow> depid \<Rightarrow> bool" where
  "newTracked s d = (0 < sint (dep_n (depHeap s d) AND trackOpBit s))"

definition initDepMarkers :: "eid \<Rightarrow> state \<Rightarrow> state" where
  "initDepMarkers e s =
     foldl (\<lambda>s' d. upd_dep d (\<lambda>dp. dp\<lparr>dep_w := dep_w dp OR trackOpBit s\<rparr>) s') s
       (deps (effectHeap s e))"

text \<open>
  The loop of \<open>finalizeDepMarkers\<close>.  The source compacts \<open>deps\<close> in place behind the
  read index (\<open>deps[ptr++] = dep\<close>, then \<open>deps.length = ptr\<close>); the model collects the
  kept entries.
\<close>

fun finalize_loop :: "eid \<Rightarrow> depid list \<Rightarrow> depid list \<Rightarrow> state \<Rightarrow> depid list \<times> state" where
  "finalize_loop e [] kept s = (kept, s)"
| "finalize_loop e (d # ds) kept s =
     (let stale = (wasTracked s d \<and> \<not> newTracked s d);
          s1 = (if stale then upd_dep d (\<lambda>dp. dp\<lparr>subs := Set_delete e (subs dp)\<rparr>) s else s);
          s2 = upd_dep d (\<lambda>dp. dp\<lparr>dep_w := dep_w dp AND NOT (trackOpBit s)\<rparr>) s1;
          s3 = upd_dep d (\<lambda>dp. dp\<lparr>dep_n := dep_n dp AND NOT (trackOpBit s)\<rparr>) s2
      in finalize_loop e ds (if stale then kept else kept @ [d]) s3)"

definition finalizeDepMarkers :: "eid \<Rightarrow> state \<Rightarrow> state" where
  "finalizeDepMarkers e s =
     (case finalize_loop e (deps (effectHeap s e)) [] s of
        (kept, s') \<Rightarrow> upd_effect e (\<lambda>x. x\<lparr>deps := kept\<rparr>) s')"

subsection \<open>effect.ts: the operations that do not call a body\<close>

definition cleanupEffect :: "eid \<Rightarrow> state \<Rightarrow> state" where
  "cleanupEffect e s =
     upd_effect e (\<lambda>x. x\<lparr>deps := []\<rparr>)
       (foldl (\<lambda>s' d. upd_dep d (\<lambda>dp. dp\<lparr>subs := Set_delete e (subs dp)\<rparr>) s') s
          (deps (effectHeap s e)))"

text \<open>\<open>ReactiveEffect.stop\<close>.\<close>

definition stop :: "eid \<Rightarrow> state \<Rightarrow> state" where
  "stop e s =
     (if activeEffect s = Some e then upd_effect e (\<lambda>x. x\<lparr>deferStop := True\<rparr>) s
      else if active (effectHeap s e) then
        (let s1 = cleanupEffect e s;
             s2 = (if onStop (effectHeap s1 e) then s1\<lparr>trace := trace s1 @ [OnStopCalled e]\<rparr> else s1)
         in upd_effect e (\<lambda>x. x\<lparr>active := False\<rparr>) s2)
      else s)"

definition pauseTracking :: "state \<Rightarrow> state" where
  "pauseTracking s = s\<lparr>trackStack := trackStack s @ [shouldTrack s], shouldTrack := False\<rparr>"

definition enableTracking :: "state \<Rightarrow> state" where
  "enableTracking s = s\<lparr>trackStack := trackStack s @ [shouldTrack s], shouldTrack := True\<rparr>"

definition resetTracking :: "state \<Rightarrow> state" where
  "resetTracking s =
     (case rev (trackStack s) of
        [] \<Rightarrow> s\<lparr>shouldTrack := True\<rparr>
      | l # rest \<Rightarrow> s\<lparr>trackStack := rev rest, shouldTrack := l\<rparr>)"

text \<open>
  \<open>trackEffects(dep)\<close>, with the effect \<open>a\<close> that \<open>activeEffect!\<close> stands for.  The
  development hook \<open>onTrack\<close> is left out.
\<close>

definition trackEffects :: "depid \<Rightarrow> eid \<Rightarrow> state \<Rightarrow> state" where
  "trackEffects d a s =
     (let (track_it, s1) =
        (if effectTrackDepth s \<le> maxMarkerBits then
           (if \<not> newTracked s d then
              (\<not> wasTracked s d, upd_dep d (\<lambda>dp. dp\<lparr>dep_n := dep_n dp OR trackOpBit s\<rparr>) s)
            else (False, s))
         else (\<not> Set_has a (subs (depHeap s d)), s))
      in if track_it then
           upd_effect a (\<lambda>x. x\<lparr>deps := deps x @ [d]\<rparr>)
             (upd_dep d (\<lambda>dp. dp\<lparr>subs := Set_add a (subs dp)\<rparr>) s1)
         else s1)"

text \<open>
  The first half of \<open>track\<close>: the \<open>Dep\<close> of the slot \<open>(target, key)\<close> in
  \<open>targetMap\<close>, created when the slot has none.
\<close>

definition depFor :: "target \<Rightarrow> key \<Rightarrow> state \<Rightarrow> depid \<times> state" where
  "depFor t k s =
     (let (depsMap, s1) =
        (case targetMap s t of
           None \<Rightarrow> (Map_empty, s\<lparr>targetMap := (targetMap s)(t \<mapsto> Map_empty)\<rparr>)
         | Some m \<Rightarrow> (m, s))
      in case Map_get depsMap k of
           None \<Rightarrow>
             (case createDep [] s1 of
                (d, s2) \<Rightarrow> (d, s2\<lparr>targetMap := (targetMap s2)(t \<mapsto> Map_set k d depsMap)\<rparr>))
         | Some d \<Rightarrow> (d, s1))"

definition track :: "target \<Rightarrow> TrackOpTypes \<Rightarrow> key \<Rightarrow> state \<Rightarrow> state" where
  "track t ty k s =
     (case activeEffect s of
        None \<Rightarrow> s
      | Some a \<Rightarrow>
          if shouldTrack s then (case depFor t k s of (d, s') \<Rightarrow> trackEffects d a s') else s)"

subsection \<open>effect.ts: which dependency sets a trigger selects\<close>

text \<open>
  The first half of \<open>trigger\<close>.  \<open>NeverTracked\<close> is the early return; \<open>TypeError\<close> is
  the exception of \<open>Number(newValue)\<close> or of \<open>key >= newLength\<close> on a symbol; an entry
  \<open>None\<close> of the selection is an \<open>undefined\<close> pushed by \<open>depsMap.get\<close>.
\<close>

datatype selection = NeverTracked | TypeError | Selected "depid option list"

text \<open>The \<open>depsMap.forEach\<close> of the branch for the length of an array.\<close>

fun length_select ::
  "builtins \<Rightarrow> jsnum \<Rightarrow> (key \<times> depid) list \<Rightarrow> depid option list \<Rightarrow> depid option list option" where
  "length_select B newLength [] acc = Some acc"
| "length_select B newLength ((k, d) # kds) acc =
     (if k = KStr ''length'' then length_select B newLength kds (acc @ [Some d])
      else
        (case key_ge B k newLength of
           None \<Rightarrow> None
         | Some True \<Rightarrow> length_select B newLength kds (acc @ [Some d])
         | Some False \<Rightarrow> length_select B newLength kds acc))"

definition trigger_deps ::
  "builtins \<Rightarrow> state \<Rightarrow> target \<Rightarrow> TriggerOpTypes \<Rightarrow> key option \<Rightarrow> jsval \<Rightarrow> selection" where
  "trigger_deps B s t ty k newValue =
     (case targetMap s t of
        None \<Rightarrow> NeverTracked
      | Some depsMap \<Rightarrow>
          if ty = CLEAR then Selected (map (\<lambda>(k', d). Some d) (entries depsMap))
          else if k = Some (KStr ''length'') \<and> isArray t then
            (case ToNumber B newValue of
               None \<Rightarrow> TypeError
             | Some newLength \<Rightarrow>
                 (case length_select B newLength (entries depsMap) [] of
                    None \<Rightarrow> TypeError
                  | Some ds \<Rightarrow> Selected ds))
          else
            Selected
              ((case k of None \<Rightarrow> [] | Some k' \<Rightarrow> [Map_get depsMap k']) @
               (case ty of
                  ADD \<Rightarrow>
                    if \<not> isArray t then
                      [Map_get depsMap ITERATE_KEY] @
                      (if isMap t then [Map_get depsMap MAP_KEY_ITERATE_KEY] else [])
                    else
                      (case k of
                         None \<Rightarrow> []
                       | Some k' \<Rightarrow>
                           if isIntegerKey B k' then [Map_get depsMap (KStr ''length'')] else [])
                | DELETE \<Rightarrow>
                    if \<not> isArray t then
                      [Map_get depsMap ITERATE_KEY] @
                      (if isMap t then [Map_get depsMap MAP_KEY_ITERATE_KEY] else [])
                    else []
                | SET \<Rightarrow> if isMap t then [Map_get depsMap ITERATE_KEY] else []
                | CLEAR \<Rightarrow> [])))"

text \<open>
  The second half of \<open>trigger\<close>: the array \<open>[...dep]\<close> that \<open>triggerEffects\<close> walks.
  A single selected set is walked as it is; otherwise the effects of all selected sets
  are collected and passed through \<open>createDep(effects)\<close>, a new set.
\<close>

definition dep_effects :: "state \<Rightarrow> depid option \<Rightarrow> eid list" where
  "dep_effects s d = (case d of None \<Rightarrow> [] | Some d' \<Rightarrow> elems (subs (depHeap s d')))"

definition trigger_effects :: "state \<Rightarrow> depid option list \<Rightarrow> eid list" where
  "trigger_effects s ds =
     (case ds of
        [d] \<Rightarrow> dep_effects s d
      | _ \<Rightarrow> elems (Set_of_list (concat (map (dep_effects s) ds))))"

subsection \<open>effect.ts: running effects\<close>

text \<open>
  The walk up the \<open>parent\<close> links at the start of \<open>run\<close>:
  \<open>while (parent) { if (parent === this) return; parent = parent.parent }\<close>.
  It does not return on a cycle of parents.
\<close>

partial_function (option) on_parent_chain :: "(eid \<Rightarrow> effect) \<Rightarrow> eid option \<Rightarrow> eid \<Rightarrow> bool option" where
  "on_parent_chain h p e =
     (case p of
        None \<Rightarrow> Some False
      | Some q \<Rightarrow> if q = e then Some True else on_parent_chain h (parent (h q)) e)"

declare on_parent_chain.simps [code]

text \<open>The \<open>try\<close> block of \<open>run\<close>, up to the call of \<open>fn\<close>.\<close>

definition run_enter :: "eid \<Rightarrow> state \<Rightarrow> state" where
  "run_enter e s =
     (let s1 = upd_effect e (\<lambda>x. x\<lparr>parent := activeEffect s\<rparr>) s;
          s2 = s1\<lparr>activeEffect := Some e, shouldTrack := True\<rparr>;
          s3 = s2\<lparr>effectTrackDepth := effectTrackDepth s2 + 1\<rparr>;
          s4 = s3\<lparr>trackOpBit := shl1 (effectTrackDepth s3)\<rparr>
      in if effectTrackDepth s4 \<le> maxMarkerBits then initDepMarkers e s4 else cleanupEffect e s4)"

text \<open>The \<open>finally\<close> block of \<open>run\<close>.\<close>

definition run_finally :: "eid \<Rightarrow> bool \<Rightarrow> state \<Rightarrow> state" where
  "run_finally e lastShouldTrack s =
     (let s1 = (if effectTrackDepth s \<le> maxMarkerBits then finalizeDepMarkers e s else s);
          s2 = s1\<lparr>effectTrackDepth := effectTrackDepth s1 - 1\<rparr>;
          s3 = s2\<lparr>trackOpBit := shl1 (effectTrackDepth s2)\<rparr>;
          s4 = s3\<lparr>activeEffect := parent (effectHeap s3 e), shouldTrack := lastShouldTrack\<rparr>;
          s5 = upd_effect e (\<lambda>x. x\<lparr>parent := None\<rparr>) s4
      in if deferStop (effectHeap s5 e) then stop e s5 else s5)"

text \<open>
  How a call ends: normally, or with an exception that propagates.  The functions that
  call a body take fuel, one unit for each nested call of \<open>run\<close>; \<open>None\<close> means that
  the fuel did not suffice (or that the walk up the parents does not return).
\<close>

datatype completion = Normal | Thrown

function (sequential) run :: "builtins \<Rightarrow> nat \<Rightarrow> eid \<Rightarrow> state \<Rightarrow> (completion \<times> state) option"
and exec :: "builtins \<Rightarrow> nat \<Rightarrow> cmd list \<Rightarrow> state \<Rightarrow> (completion \<times> state) option"
and exec_cmd :: "builtins \<Rightarrow> nat \<Rightarrow> cmd \<Rightarrow> state \<Rightarrow> (completion \<times> state) option"
and trigger ::
  "builtins \<Rightarrow> nat \<Rightarrow> target \<Rightarrow> TriggerOpTypes \<Rightarrow> key option \<Rightarrow> jsval \<Rightarrow> state
     \<Rightarrow> (completion \<times> state) option"
and triggerEffects :: "builtins \<Rightarrow> nat \<Rightarrow> eid list \<Rightarrow> state \<Rightarrow> (completion \<times> state) option"
and triggerEffects_loop ::
  "builtins \<Rightarrow> nat \<Rightarrow> bool \<Rightarrow> eid list \<Rightarrow> state \<Rightarrow> (completion \<times> state) option"
and triggerEffect :: "builtins \<Rightarrow> nat \<Rightarrow> eid \<Rightarrow> state \<Rightarrow> (completion \<times> state) option"
where
  "run B 0 e s = None"
| "run B (Suc k) e s =
     (if \<not> active (effectHeap s e) then exec B k (fn (effectHeap s e)) s
      else
        (case on_parent_chain (effectHeap s) (activeEffect s) e of
           None \<Rightarrow> None
         | Some True \<Rightarrow> Some (Normal, s)
         | Some False \<Rightarrow>
             (case exec B k (fn (effectHeap s e)) (run_enter e s) of
                None \<Rightarrow> None
              | Some (c, s') \<Rightarrow> Some (c, run_finally e (shouldTrack s) s'))))"
| "exec B k [] s = Some (Normal, s)"
| "exec B k (c # cs) s =
     (case exec_cmd B k c s of
        None \<Rightarrow> None
      | Some (Normal, s') \<Rightarrow> exec B k cs s'
      | Some (Thrown, s') \<Rightarrow> Some (Thrown, s'))"
| "exec_cmd B k (CTrack t ty key) s = Some (Normal, track t ty key s)"
| "exec_cmd B k (CTrigger t ty key newValue) s = trigger B k t ty key newValue s"
| "exec_cmd B k (CRun e) s = run B k e s"
| "exec_cmd B k (CStop e) s = Some (Normal, stop e s)"
| "exec_cmd B k CPauseTracking s = Some (Normal, pauseTracking s)"
| "exec_cmd B k CEnableTracking s = Some (Normal, enableTracking s)"
| "exec_cmd B k CResetTracking s = Some (Normal, resetTracking s)"
| "exec_cmd B k (COutput x) s = Some (Normal, s\<lparr>trace := trace s @ [Output x]\<rparr>)"
| "exec_cmd B k CThrow s = Some (Thrown, s)"
| "trigger B k t ty key newValue s =
     (case trigger_deps B s t ty key newValue of
        NeverTracked \<Rightarrow> Some (Normal, s)
      | TypeError \<Rightarrow> Some (Thrown, s)
      | Selected ds \<Rightarrow>
          triggerEffects B k (trigger_effects s ds) s)"
| "triggerEffects B k effects s =
     (case triggerEffects_loop B k True effects s of
        None \<Rightarrow> None
      | Some (Normal, s') \<Rightarrow> triggerEffects_loop B k False effects s'
      | Some (Thrown, s') \<Rightarrow> Some (Thrown, s'))"
| "triggerEffects_loop B k c [] s = Some (Normal, s)"
| "triggerEffects_loop B k c (e # es) s =
     (if computed (effectHeap s e) = c then
        (case triggerEffect B k e s of
           None \<Rightarrow> None
         | Some (Normal, s') \<Rightarrow> triggerEffects_loop B k c es s'
         | Some (Thrown, s') \<Rightarrow> Some (Thrown, s'))
      else triggerEffects_loop B k c es s)"
| "triggerEffect B k e s =
     (if activeEffect s \<noteq> Some e \<or> allowRecurse (effectHeap s e) then
        (if scheduler (effectHeap s e) then Some (Normal, s\<lparr>trace := trace s @ [SchedulerCalled e]\<rparr>)
         else run B k e s)
      else Some (Normal, s))"

  by pat_completeness auto

termination
  by (relation "inv_image (less_than <*lex*> less_than <*lex*> less_than)
        (case_sum
          (case_sum (\<lambda>(B, k, e, s). (k, 0::nat, 0::nat))
            (case_sum (\<lambda>(B, k, cs, s). (k, 6, length cs)) (\<lambda>(B, k, c, s). (k, 5, 0))))
          (case_sum
            (case_sum (\<lambda>(B, k, t, ty, key, nv, s). (k, 4, 0)) (\<lambda>(B, k, es, s). (k, 3, 0)))
            (case_sum (\<lambda>(B, k, c, es, s). (k, 2, length es)) (\<lambda>(B, k, e, s). (k, 1, 0)))))")
     auto

text \<open>
  The calls of \<open>triggerEffect\<close> that one call of \<open>triggerEffects\<close> makes, as a list of
  effects in the order of the calls (\<open>trigger_order\<close>), and the calls made one after the
  other, up to the first that throws (\<open>triggerEffect_each\<close>).  That \<open>triggerEffects\<close> is
  \<open>triggerEffect_each\<close> on \<open>trigger_order\<close> is proved below.
\<close>

fun triggerEffect_each :: "builtins \<Rightarrow> nat \<Rightarrow> eid list \<Rightarrow> state \<Rightarrow> (completion \<times> state) option" where
  "triggerEffect_each B k [] s = Some (Normal, s)"
| "triggerEffect_each B k (e # es) s =
     (case triggerEffect B k e s of
        None \<Rightarrow> None
      | Some (Normal, s') \<Rightarrow> triggerEffect_each B k es s'
      | Some (Thrown, s') \<Rightarrow> Some (Thrown, s'))"

definition trigger_order :: "state \<Rightarrow> eid list \<Rightarrow> eid list" where
  "trigger_order s es =
     filter (\<lambda>e. computed (effectHeap s e)) es @ filter (\<lambda>e. \<not> computed (effectHeap s e)) es"

subsection \<open>The state at module load, and a new effect\<close>

definition new_effect :: "cmd list \<Rightarrow> effect" where
  "new_effect body =
     \<lparr>active = True, deps = [], parent = None, computed = False, allowRecurse = False,
      deferStop = False, onStop = False, scheduler = False, fn = body\<rparr>"

definition init_state :: state where
  "init_state =
     \<lparr>targetMap = (\<lambda>_. None),
      depHeap = (\<lambda>_. \<lparr>subs = Set_empty, dep_w = 0, dep_n = 0\<rparr>),
      nextDep = 0,
      effectHeap = (\<lambda>_. new_effect []),
      activeEffect = None,
      shouldTrack = True,
      trackStack = [],
      effectTrackDepth = 0,
      trackOpBit = 1,
      trace = []\<rparr>"

text \<open>
  One choice of the conversions, for the concrete runs below.  It agrees with the
  language on the strings and numbers used there: a string of decimal digits is its
  value, a string that does not start with a digit, a sign or a blank is not a number,
  and a natural number below \<open>2 ^ 53\<close> is printed in decimal.
\<close>

definition is_digit :: "char \<Rightarrow> bool" where
  "is_digit c = (c \<in> set ''0123456789'')"

definition dec_value :: "string \<Rightarrow> nat" where
  "dec_value ds = foldl (\<lambda>a c. 10 * a + (of_char c - 48)) 0 ds"

function dec_string :: "nat \<Rightarrow> string" where
  "dec_string i =
     (if i < 10 then [''0123456789'' ! i]
      else dec_string (i div 10) @ [''0123456789'' ! (i mod 10)])"
  by pat_completeness auto

termination
  by (relation "measure id") auto

definition js_decimal :: builtins where
  "js_decimal =
     \<lparr>StringToNumber =
        (\<lambda>s. if s = [] then Val 0 else if list_all is_digit s then Val (real (dec_value s)) else NaN),
      parseInt10 =
        (\<lambda>s. if takeWhile is_digit s = [] then NaN else Val (real (dec_value (takeWhile is_digit s)))),
      NumberToString =
        (\<lambda>x. case x of NaN \<Rightarrow> ''NaN'' | PosInf \<Rightarrow> ''Infinity'' | NegInf \<Rightarrow> ''-Infinity''
           | NegZero \<Rightarrow> ''0''
           | Val r \<Rightarrow> if r = real (nat \<lfloor>r\<rfloor>) then dec_string (nat \<lfloor>r\<rfloor>) else []),
      ObjectToNumber = (\<lambda>_. Some NaN)\<rparr>"

section \<open>baseHandlers.ts: the write traps\<close>

text \<open>
  What a trap needs from outside \<open>baseHandlers.ts\<close> is a parameter of the model, for an
  arbitrary type \<open>'h\<close> of heaps of objects:
  \<^item> of \<open>reactive.ts\<close> and \<open>ref.ts\<close>, which are not among the sources: \<open>isReadonly\<close>,
    \<open>isShallow\<close>, \<open>isRef\<close> and \<open>toRaw\<close>, and the assignment \<open>oldValue.value = value\<close> to
    a ref-like box (\<open>ref_assign\<close>);
  \<^item> of the language: the read \<open>target[key]\<close> (\<open>Get\<close>), \<open>hasOwnProperty\<close>
    (\<open>hasOwn\<close>), the length of an array and \<open>Reflect.set\<close>, which returns its result
    and the heap after the write.
  A trap returns its result, the heap it leaves and the calls of \<open>trigger\<close> it makes, in
  order, as commands for the engine.
\<close>

record 'h env =
  isReadonly :: "jsval \<Rightarrow> bool"
  isShallow :: "jsval \<Rightarrow> bool"
  isRef :: "jsval \<Rightarrow> bool"
  toRaw :: "jsval \<Rightarrow> jsval"
  ref_assign :: "'h \<Rightarrow> jsval \<Rightarrow> jsval \<Rightarrow> 'h"
  Get :: "'h \<Rightarrow> target \<Rightarrow> key \<Rightarrow> jsval"
  hasOwn :: "'h \<Rightarrow> target \<Rightarrow> key \<Rightarrow> bool"
  array_length :: "'h \<Rightarrow> target \<Rightarrow> jsnum"
  Reflect_set :: "'h \<Rightarrow> target \<Rightarrow> key \<Rightarrow> jsval \<Rightarrow> jsval \<Rightarrow> bool \<times> 'h"

text \<open>\<open>Number(key)\<close> for a key that \<open>isIntegerKey\<close> has accepted.\<close>

fun key_number :: "builtins \<Rightarrow> key \<Rightarrow> jsnum" where
  "key_number B (KStr s) = StringToNumber B s"
| "key_number B (KSym _) = NaN"

text \<open>
  The parts of \<open>createSetter(shallow)\<close>, in the order of the source.  The first exit:
  the old value is a read-only ref-like box and the new value is no box.
\<close>

definition set_rejected :: "'h env \<Rightarrow> 'h \<Rightarrow> target \<Rightarrow> key \<Rightarrow> jsval \<Rightarrow> bool" where
  "set_rejected E h t k v =
     (isReadonly E (Get E h t k) \<and> isRef E (Get E h t k) \<and> \<not> isRef E v)"

text \<open>
  In deep mode a new value that is neither shallow nor read-only is unwrapped, and the
  old value with it.
\<close>

definition set_unwraps :: "'h env \<Rightarrow> bool \<Rightarrow> jsval \<Rightarrow> bool" where
  "set_unwraps E shallow v = (\<not> shallow \<and> \<not> isShallow E v \<and> \<not> isReadonly E v)"

definition set_oldValue :: "'h env \<Rightarrow> bool \<Rightarrow> 'h \<Rightarrow> target \<Rightarrow> key \<Rightarrow> jsval \<Rightarrow> jsval" where
  "set_oldValue E shallow h t k v =
     (if set_unwraps E shallow v then toRaw E (Get E h t k) else Get E h t k)"

definition set_value :: "'h env \<Rightarrow> bool \<Rightarrow> jsval \<Rightarrow> jsval" where
  "set_value E shallow v = (if set_unwraps E shallow v then toRaw E v else v)"

text \<open>
  The second exit, in deep mode on a target that is no array: the old value is a
  ref-like box and the new value is no box, and the new value goes into the box.
\<close>

definition set_into_ref :: "'h env \<Rightarrow> bool \<Rightarrow> 'h \<Rightarrow> target \<Rightarrow> key \<Rightarrow> jsval \<Rightarrow> bool" where
  "set_into_ref E shallow h t k v =
     (\<not> shallow \<and> \<not> isArray t \<and> isRef E (set_oldValue E shallow h t k v)
      \<and> \<not> isRef E (set_value E shallow v))"

definition set_hadKey :: "'h env \<Rightarrow> builtins \<Rightarrow> 'h \<Rightarrow> target \<Rightarrow> key \<Rightarrow> bool" where
  "set_hadKey E B h t k =
     (if isArray t \<and> isIntegerKey B k then num_lt (key_number B k) (array_length E h t)
      else hasOwn E h t k)"

definition createSetter ::
  "'h env \<Rightarrow> builtins \<Rightarrow> bool \<Rightarrow> 'h \<Rightarrow> target \<Rightarrow> key \<Rightarrow> jsval \<Rightarrow> jsval \<Rightarrow> bool \<times> 'h \<times> cmd list" where
  "createSetter E B shallow h t k v receiver =
     (if set_rejected E h t k v then (False, h, [])
      else if set_into_ref E shallow h t k v then
        (True, ref_assign E h (set_oldValue E shallow h t k v) (set_value E shallow v), [])
      else
        (case Reflect_set E h t k (set_value E shallow v) receiver of
           (result, h') \<Rightarrow>
             (result, h',
              if toRaw E receiver = VObj t then
                (if \<not> set_hadKey E B h t k then [CTrigger t ADD (Some k) (set_value E shallow v)]
                 else if hasChanged (set_value E shallow v) (set_oldValue E shallow h t k v)
                 then [CTrigger t SET (Some k) (set_value E shallow v)]
                 else [])
              else [])))"

text \<open>
  \<open>readonlyHandlers\<close>, whose \<open>set\<close> and \<open>deleteProperty\<close> \<open>shallowReadonlyHandlers\<close>
  takes over.  \<open>dev\<close> is the build flag \<open>__DEV__\<close>.  Modelled from the spec: \<open>warn\<close>
  (\<open>warning.ts\<close> is not among the sources) emits a developer-facing warning and returns;
  the warnings a trap emits are its fourth result.
\<close>

datatype warning = SetOnReadonly key target | DeleteOnReadonly key target

definition readonly_set :: "bool \<Rightarrow> 'h \<Rightarrow> target \<Rightarrow> key \<Rightarrow> bool \<times> 'h \<times> cmd list \<times> warning list" where
  "readonly_set dev h t k = (True, h, [], if dev then [SetOnReadonly k t] else [])"

definition readonly_deleteProperty ::
  "bool \<Rightarrow> 'h \<Rightarrow> target \<Rightarrow> key \<Rightarrow> bool \<times> 'h \<times> cmd list \<times> warning list" where
  "readonly_deleteProperty dev h t k = (True, h, [], if dev then [DeleteOnReadonly k t] else [])"

text \<open>
  One choice of the parameters, for the concrete writes below: plain objects with data
  properties, and boxes whose content lives beside them.  An observed wrapper unwraps to
  its target; wrappers and boxes carry their read-only flag.
\<close>

type_synonym plain_heap = "(target \<Rightarrow> key \<Rightarrow> jsval option) \<times> (nat \<Rightarrow> jsval)"

fun plain_toRaw :: "jsval \<Rightarrow> jsval" where
  "plain_toRaw (VWrapper t ro sh) = VObj t"
| "plain_toRaw v = v"

fun plain_isReadonly :: "jsval \<Rightarrow> bool" where
  "plain_isReadonly (VWrapper t ro sh) = ro"
| "plain_isReadonly (VRef i ro) = ro"
| "plain_isReadonly v = False"

fun plain_isShallow :: "jsval \<Rightarrow> bool" where
  "plain_isShallow (VWrapper t ro sh) = sh"
| "plain_isShallow v = False"

fun plain_isRef :: "jsval \<Rightarrow> bool" where
  "plain_isRef (VRef i ro) = True"
| "plain_isRef v = False"

fun plain_ref_assign :: "plain_heap \<Rightarrow> jsval \<Rightarrow> jsval \<Rightarrow> plain_heap" where
  "plain_ref_assign (ob, bx) (VRef i ro) v = (ob, bx(i := v))"
| "plain_ref_assign h old v = h"

definition plain_env :: "plain_heap env" where
  "plain_env =
     \<lparr>isReadonly = plain_isReadonly, isShallow = plain_isShallow, isRef = plain_isRef,
      toRaw = plain_toRaw, ref_assign = plain_ref_assign,
      Get = (\<lambda>h t k. case fst h t k of None \<Rightarrow> VUndefined | Some v \<Rightarrow> v),
      hasOwn = (\<lambda>h t k. fst h t k \<noteq> None),
      array_length = (\<lambda>h t. case fst h t (KStr ''length'') of Some (VNum x) \<Rightarrow> x | _ \<Rightarrow> NaN),
      Reflect_set = (\<lambda>h t k v receiver.
        if plain_toRaw receiver = VObj t then (True, ((fst h)(t := (fst h t)(k \<mapsto> v)), snd h))
        else (True, h))\<rparr>"

section \<open>Concrete programs\<close>

text \<open>
  Effect 1 is in the middle of its run and its body calls its own \<open>run\<close>.
\<close>

definition guard_state :: state where
  "guard_state =
     run_enter 1 (init_state\<lparr>effectHeap := (\<lambda>_. new_effect [])(1 := new_effect [CRun 1])\<rparr>)"

text \<open>
  Effect 1 runs effect 2 and then has an effect of its own; effect 2 stops effect 1 and
  calls its \<open>run\<close>.  In \<open>stopped_inside_state\<close> effect 1 has entered its run, effect 2
  has entered its run inside it, and the body of effect 2 has just stopped effect 1.
\<close>

definition stop_inside_program :: state where
  "stop_inside_program =
     init_state\<lparr>effectHeap := (\<lambda>_. new_effect [])
       (1 := new_effect [CRun 2, COutput 7], 2 := new_effect [CStop 1, CRun 1])\<rparr>"

definition stopped_inside_state :: state where
  "stopped_inside_state = stop 1 (run_enter 2 (run_enter 1 stop_inside_program))"

text \<open>
  An effect has enumerated an array (which tracks \<open>length\<close>) and read its element \<open>2\<close>
  and its properties \<open>01\<close> and \<open>foo\<close>.
\<close>

definition arr :: target where
  "arr = Target ArrayObject 0"

definition array_read_state :: state where
  "array_read_state =
     run_finally 1 True
       (track arr GET (KStr ''foo'')
         (track arr GET (KStr ''01'')
           (track arr GET (KStr ''2'')
             (track arr ITERATE (KStr ''length'') (run_enter 1 init_state)))))"

text \<open>
  Two effects with schedulers, the second one computed, have each read the property
  \<open>a\<close> of a plain object and enumerated the object.
\<close>

definition obj :: target where
  "obj = Target PlainObject 1"

definition shared_program :: state where
  "shared_program =
     init_state\<lparr>effectHeap := (\<lambda>_. new_effect [])
       (1 := (new_effect [])\<lparr>scheduler := True\<rparr>,
        2 := (new_effect [])\<lparr>scheduler := True, computed := True\<rparr>)\<rparr>"

definition shared_state :: state where
  "shared_state =
     run_finally 2 True
       (track obj ITERATE ITERATE_KEY
         (track obj GET (KStr ''a'')
           (run_enter 2
             (run_finally 1 True
               (track obj ITERATE ITERATE_KEY
                 (track obj GET (KStr ''a'') (run_enter 1 shared_program)))))))"

text \<open>
  A plain object whose property \<open>c\<close> holds a read-only box (a computed value), \<open>r\<close> a
  writable box, \<open>n\<close> the number \<open>NaN\<close> and \<open>z\<close> the number \<open>+0\<close>; \<open>obj_wrapper\<close> is its
  deep mutable wrapper.
\<close>

definition boxed_heap :: plain_heap where
  "boxed_heap =
     ((\<lambda>_ _. None)
        (obj := [KStr ''c'' \<mapsto> VRef 0 True, KStr ''r'' \<mapsto> VRef 1 False,
                 KStr ''n'' \<mapsto> VNum NaN, KStr ''z'' \<mapsto> VNum (Val 0)]),
      (\<lambda>_. VNum (Val 1)))"

definition obj_wrapper :: jsval where
  "obj_wrapper = VWrapper obj False False"





text \<open>
  Effect 1 reads the property \<open>a\<close> and calls effect 2, which stops effect 1; effect 3
  reads \<open>a\<close> and writes an output.
\<close>

definition stale_marker_program :: state where
  "stale_marker_program =
     init_state\<lparr>effectHeap := (\<lambda>_. new_effect [])
       (1 := new_effect [CTrack obj GET (KStr ''a''), CRun 2],
        2 := new_effect [CStop 1],
        3 := new_effect [CTrack obj GET (KStr ''a''), COutput 3])\<rparr>"



section \<open>Subscriptions\<close>

text \<open>
  Effect \<open>e\<close> is a member of the dependency set \<open>d\<close>; the dependency set of the slot
  \<open>(target, key)\<close>, when it has one; and the bookkeeping of the effects mirrors the
  sets: every set an effect is a member of is in the effect's own \<open>deps\<close>.
\<close>

definition subscribed :: "state \<Rightarrow> eid \<Rightarrow> depid \<Rightarrow> bool" where
  "subscribed s e d = Set_has e (subs (depHeap s d))"

definition slot :: "state \<Rightarrow> target \<Rightarrow> key \<Rightarrow> depid option" where
  "slot s t k = (case targetMap s t of None \<Rightarrow> None | Some m \<Rightarrow> Map_get m k)"

definition mirrored :: "state \<Rightarrow> bool" where
  "mirrored s = (\<forall>e d. subscribed s e d \<longrightarrow> d \<in> set (deps (effectHeap s e)))"


text \<open>
  The state after a sequence of reads, and the slots that the sequence reads.
\<close>

definition tracks :: "(target \<times> TrackOpTypes \<times> key) list \<Rightarrow> state \<Rightarrow> state" where
  "tracks rs s = foldl (\<lambda>s' (t, ty, k). track t ty k s') s rs"

definition read_slots :: "(target \<times> TrackOpTypes \<times> key) list \<Rightarrow> (target \<times> key) set" where
  "read_slots rs = (\<lambda>(t, ty, k). (t, k)) ` set rs"

text \<open>
  The test of \<open>wasTracked\<close> and \<open>newTracked\<close> on a marker \<open>w\<close> and a bit \<open>b\<close>; and a
  state none of whose markers has the bit \<open>b\<close>: the state of the markers of a level
  when no run is in progress at that level (\<open>finalizeDepMarkers\<close> clears the bit on
  every entry of \<open>deps\<close>).
\<close>

definition marked :: "32 word \<Rightarrow> 32 word \<Rightarrow> bool" where
  "marked w b = (0 < sint (w AND b))"







section \<open>Basic facts\<close>

lemmas engine_defs =
  run_enter_def run_finally_def initDepMarkers_def finalizeDepMarkers_def cleanupEffect_def
  stop_def track_def depFor_def trackEffects_def createDep_def upd_dep_def upd_effect_def
  wasTracked_def newTracked_def maxMarkerBits_def shl1_def Let_def Set_has_def Map_get_def
  pauseTracking_def enableTracking_def resetTracking_def
  Set_add.rep_eq Set_delete.rep_eq Set_empty.rep_eq Set_of_list.rep_eq
  Map_set.rep_eq Map_empty.rep_eq alist_set_def
  init_state_def new_effect_def

lemmas builtin_defs = js_decimal_def is_digit_def dec_value_def

lemma on_parent_chain_None [simp]: "on_parent_chain h None e = Some False"
  by (subst on_parent_chain.simps) simp

lemma on_parent_chain_Some [simp]:
  "on_parent_chain h (Some q) e = (if q = e then Some True else on_parent_chain h (parent (h q)) e)"
  by (subst on_parent_chain.simps) simp

lemma Set_has_empty [simp]: "\<not> Set_has x Set_empty"
  by (simp add: Set_has_def Set_empty.rep_eq)

lemma Set_has_add [simp]: "Set_has x (Set_add y S) = (x = y \<or> Set_has x S)"
  by (auto simp: Set_has_def Set_add.rep_eq)

lemma Set_has_delete [simp]: "Set_has x (Set_delete y S) = (x \<noteq> y \<and> Set_has x S)"
  by (auto simp: Set_has_def Set_delete.rep_eq)

lemma Set_has_of_list [simp]: "Set_has x (Set_of_list xs) = (x \<in> set xs)"
  by (simp add: Set_has_def Set_of_list.rep_eq set_add_all)

lemma distinct_elems [simp]: "distinct (elems S)"
  using elems [of S] by simp

lemma Map_get_empty [simp]: "Map_get Map_empty k = None"
  by (simp add: Map_get_def Map_empty.rep_eq)

lemma map_of_map_set:
  "map_of (map (\<lambda>(k', v'). if k' = k then (k', v) else (k', v')) kvs) k' =
     (if k' = k \<and> k \<in> fst ` set kvs then Some v else map_of kvs k')"
proof (induction kvs)
  case Nil
  show ?case by simp
next
  case (Cons p kvs)
  obtain a b where p: "p = (a, b)" by (cases p)
  show ?case using Cons.IH by (force simp: p)
qed

lemma map_of_alist_set: "map_of (alist_set k v kvs) k' = (if k' = k then Some v else map_of kvs k')"
proof (cases "k \<in> fst ` set kvs")
  case True
  then show ?thesis by (simp add: alist_set_def map_of_map_set)
next
  case False
  then have "map_of kvs k = None" by (simp add: map_of_eq_None_iff)
  with False show ?thesis by (auto simp: alist_set_def map_add_def split: option.splits)
qed

lemma Map_get_set [simp]: "Map_get (Map_set k v m) k' = (if k' = k then Some v else Map_get m k')"
  by (simp add: Map_get_def Map_set.rep_eq map_of_alist_set)

subsection \<open>What every step of the engine respects, every call respects\<close>

declare trigger.simps [simp del] triggerEffects.simps [simp del] triggerEffect.simps [simp del]

definition step_closed :: "(state \<Rightarrow> state \<Rightarrow> bool) \<Rightarrow> bool" where
  "step_closed R =
     ((\<forall>s. R s s) \<and> (\<forall>s s' s''. R s s' \<longrightarrow> R s' s'' \<longrightarrow> R s s'')
      \<and> (\<forall>t ty key s. R s (track t ty key s))
      \<and> (\<forall>e s. R s (stop e s))
      \<and> (\<forall>s. R s (pauseTracking s)) \<and> (\<forall>s. R s (enableTracking s)) \<and> (\<forall>s. R s (resetTracking s))
      \<and> (\<forall>s ev. R s (s\<lparr>trace := trace s @ [ev]\<rparr>))
      \<and> (\<forall>e s. R s (run_enter e s))
      \<and> (\<forall>e l s. R s (run_finally e l s)))"

definition run_closed :: "(state \<Rightarrow> state \<Rightarrow> bool) \<Rightarrow> builtins \<Rightarrow> nat \<Rightarrow> bool" where
  "run_closed R B k = (\<forall>e s c s'. run B k e s = Some (c, s') \<longrightarrow> R s s')"

lemma closed_refl: "step_closed R \<Longrightarrow> R s s"
  unfolding step_closed_def by blast

lemma closed_trans: "step_closed R \<Longrightarrow> R s s' \<Longrightarrow> R s' s'' \<Longrightarrow> R s s''"
  unfolding step_closed_def by blast

lemma closed_steps:
  assumes "step_closed R"
  shows "R s (track t ty key s)" and "R s (stop e s)" and "R s (pauseTracking s)"
    and "R s (enableTracking s)" and "R s (resetTracking s)"
    and "R s (s\<lparr>trace := trace s @ [ev]\<rparr>)"
    and "R s (run_enter e s)" and "R s (run_finally e l s)"
proof -
  from assms show "R s (track t ty key s)" unfolding step_closed_def by blast
  from assms show "R s (stop e s)" unfolding step_closed_def by blast
  from assms show "R s (pauseTracking s)" unfolding step_closed_def by blast
  from assms show "R s (enableTracking s)" unfolding step_closed_def by blast
  from assms show "R s (resetTracking s)" unfolding step_closed_def by blast
  from assms show "R s (s\<lparr>trace := trace s @ [ev]\<rparr>)" unfolding step_closed_def by blast
  from assms show "R s (run_enter e s)" unfolding step_closed_def by blast
  from assms show "R s (run_finally e l s)" unfolding step_closed_def by blast
qed

lemma triggerEffect_closed:
  assumes R: "step_closed R" and k: "run_closed R B k"
    and t: "triggerEffect B k e s = Some (c, s')"
  shows "R s s'"
proof (cases "activeEffect s \<noteq> Some e \<or> allowRecurse (effectHeap s e)")
  case False
  with t R show ?thesis by (simp add: triggerEffect.simps closed_refl)
next
  case True
  show ?thesis
  proof (cases "scheduler (effectHeap s e)")
    case True
    with t \<open>activeEffect s \<noteq> Some e \<or> allowRecurse (effectHeap s e)\<close>
    have "s' = s\<lparr>trace := trace s @ [SchedulerCalled e]\<rparr>"
      by (auto simp: triggerEffect.simps)
    with R show ?thesis by (simp add: closed_steps)
  next
    case False
    with t \<open>activeEffect s \<noteq> Some e \<or> allowRecurse (effectHeap s e)\<close>
    have "run B k e s = Some (c, s')"
      by (auto simp: triggerEffect.simps)
    with k show ?thesis unfolding run_closed_def by blast
  qed
qed

lemma triggerEffects_loop_closed:
  assumes R: "step_closed R" and k: "run_closed R B k"
  shows "triggerEffects_loop B k b es s = Some (c, s') \<Longrightarrow> R s s'"
proof (induction es arbitrary: s)
  case Nil
  then show ?case using R by (simp add: closed_refl)
next
  case (Cons e es)
  show ?case
  proof (cases "computed (effectHeap s e) = b")
    case False
    with Cons show ?thesis by simp
  next
    case True
    with Cons.prems obtain c1 s1 where e1: "triggerEffect B k e s = Some (c1, s1)"
      by (auto split: option.splits)
    from triggerEffect_closed [OF R k e1] have r1: "R s s1" .
    show ?thesis
    proof (cases c1)
      case Normal
      with Cons.prems e1 True have "triggerEffects_loop B k b es s1 = Some (c, s')" by simp
      from Cons.IH [OF this] r1 show ?thesis using R closed_trans by blast
    next
      case Thrown
      with Cons.prems e1 True r1 show ?thesis by simp
    qed
  qed
qed

lemma triggerEffects_closed:
  assumes R: "step_closed R" and k: "run_closed R B k"
    and t: "triggerEffects B k es s = Some (c, s')"
  shows "R s s'"
proof -
  from t obtain c1 s1 where e1: "triggerEffects_loop B k True es s = Some (c1, s1)"
    by (auto simp: triggerEffects.simps split: option.splits)
  from triggerEffects_loop_closed [OF R k e1] have r1: "R s s1" .
  show ?thesis
  proof (cases c1)
    case Normal
    with t e1 have "triggerEffects_loop B k False es s1 = Some (c, s')"
      by (simp add: triggerEffects.simps)
    from triggerEffects_loop_closed [OF R k this] r1 show ?thesis
      using R closed_trans by blast
  next
    case Thrown
    with t e1 r1 show ?thesis by (simp add: triggerEffects.simps)
  qed
qed

lemma trigger_closed:
  assumes R: "step_closed R" and k: "run_closed R B k"
    and t: "trigger B k t ty key nv s = Some (c, s')"
  shows "R s s'"
proof (cases "trigger_deps B s t ty key nv")
  case NeverTracked
  with t R show ?thesis by (simp add: trigger.simps closed_refl)
next
  case TypeError
  with t R show ?thesis by (simp add: trigger.simps closed_refl)
next
  case (Selected ds)
  with t have "triggerEffects B k (trigger_effects s ds) s = Some (c, s')"
    by (simp add: trigger.simps)
  from triggerEffects_closed [OF R k this] show ?thesis .
qed

lemma exec_cmd_closed:
  assumes R: "step_closed R" and k: "run_closed R B k"
    and t: "exec_cmd B k cm s = Some (c, s')"
  shows "R s s'"
proof (cases cm)
  case (CTrigger t ty key nv)
  with t trigger_closed [OF R k] show ?thesis by simp
next
  case (CRun e)
  with t k show ?thesis by (simp add: run_closed_def)
qed (use t closed_steps [OF R] closed_refl [OF R] in auto)

lemma exec_closed:
  assumes R: "step_closed R" and k: "run_closed R B k"
  shows "exec B k cs s = Some (c, s') \<Longrightarrow> R s s'"
proof (induction cs arbitrary: s)
  case Nil
  then show ?case using R by (simp add: closed_refl)
next
  case (Cons cm cs)
  from Cons.prems obtain c1 s1 where e1: "exec_cmd B k cm s = Some (c1, s1)"
    by (auto split: option.splits)
  from exec_cmd_closed [OF R k e1] have r1: "R s s1" .
  show ?case
  proof (cases c1)
    case Normal
    with Cons.prems e1 have "exec B k cs s1 = Some (c, s')" by simp
    from Cons.IH [OF this] r1 show ?thesis using R closed_trans by blast
  next
    case Thrown
    with Cons.prems e1 r1 show ?thesis by simp
  qed
qed

lemma run_closed:
  assumes R: "step_closed R"
  shows "run_closed R B k"
proof (induction k)
  case 0
  show ?case by (simp add: run_closed_def)
next
  case (Suc k)
  show ?case
    unfolding run_closed_def
  proof (intro allI impI)
    fix e s c s'
    assume r: "run B (Suc k) e s = Some (c, s')"
    show "R s s'"
    proof (cases "active (effectHeap s e)")
      case False
      with r exec_closed [OF R Suc] show ?thesis by simp
    next
      case True
      note act = this
      show ?thesis
      proof (cases "on_parent_chain (effectHeap s) (activeEffect s) e")
        case None
        with r act show ?thesis by simp
      next
        case (Some b)
        show ?thesis
        proof (cases b)
          case True
          with r act Some R show ?thesis by (simp add: closed_refl)
        next
          case False
          with r act Some obtain c2 s2 where
            ex: "exec B k (fn (effectHeap s e)) (run_enter e s) = Some (c2, s2)"
            and s': "s' = run_finally e (shouldTrack s) s2"
            by (auto split: option.splits)
          from exec_closed [OF R Suc ex] have "R (run_enter e s) s2" .
          moreover from R have "R s (run_enter e s)" by (simp add: closed_steps)
          moreover from R have "R s2 s'" unfolding s' by (simp add: closed_steps)
          ultimately show ?thesis using R closed_trans by blast
        qed
      qed
    qed
  qed
qed


subsection \<open>The two heaps\<close>

lemma upd_dep_fields [simp]:
  "depHeap (upd_dep d f s) = (depHeap s)(d := f (depHeap s d))"
  "targetMap (upd_dep d f s) = targetMap s"
  "nextDep (upd_dep d f s) = nextDep s"
  "effectHeap (upd_dep d f s) = effectHeap s"
  "activeEffect (upd_dep d f s) = activeEffect s"
  "shouldTrack (upd_dep d f s) = shouldTrack s"
  "trackStack (upd_dep d f s) = trackStack s"
  "effectTrackDepth (upd_dep d f s) = effectTrackDepth s"
  "trackOpBit (upd_dep d f s) = trackOpBit s"
  "trace (upd_dep d f s) = trace s"
  by (simp_all add: upd_dep_def)

lemma upd_effect_fields [simp]:
  "effectHeap (upd_effect e f s) = (effectHeap s)(e := f (effectHeap s e))"
  "targetMap (upd_effect e f s) = targetMap s"
  "nextDep (upd_effect e f s) = nextDep s"
  "depHeap (upd_effect e f s) = depHeap s"
  "activeEffect (upd_effect e f s) = activeEffect s"
  "shouldTrack (upd_effect e f s) = shouldTrack s"
  "trackStack (upd_effect e f s) = trackStack s"
  "effectTrackDepth (upd_effect e f s) = effectTrackDepth s"
  "trackOpBit (upd_effect e f s) = trackOpBit s"
  "trace (upd_effect e f s) = trace s"
  by (simp_all add: upd_effect_def)

text \<open>A loop that only updates \<open>Dep\<close> objects leaves everything else as it is.\<close>

lemma foldl_upd_dep_fields [simp]:
  "targetMap (foldl (\<lambda>s' d. upd_dep d f s') s ds) = targetMap s"
  "nextDep (foldl (\<lambda>s' d. upd_dep d f s') s ds) = nextDep s"
  "effectHeap (foldl (\<lambda>s' d. upd_dep d f s') s ds) = effectHeap s"
  "activeEffect (foldl (\<lambda>s' d. upd_dep d f s') s ds) = activeEffect s"
  "shouldTrack (foldl (\<lambda>s' d. upd_dep d f s') s ds) = shouldTrack s"
  "trackStack (foldl (\<lambda>s' d. upd_dep d f s') s ds) = trackStack s"
  "effectTrackDepth (foldl (\<lambda>s' d. upd_dep d f s') s ds) = effectTrackDepth s"
  "trackOpBit (foldl (\<lambda>s' d. upd_dep d f s') s ds) = trackOpBit s"
  "trace (foldl (\<lambda>s' d. upd_dep d f s') s ds) = trace s"
  by (induction ds arbitrary: s; simp)+

lemma foldl_upd_dep_heap:
  assumes idem: "\<And>dp. f (f dp) = f dp"
  shows "depHeap (foldl (\<lambda>s' d. upd_dep d f s') s ds) d =
     (if d \<in> set ds then f (depHeap s d) else depHeap s d)"
proof (induction ds arbitrary: s)
  case Nil
  show ?case by simp
next
  case (Cons x ds)
  show ?case by (simp add: Cons.IH idem)
qed

lemma finalize_loop_fields [simp]:
  "targetMap (snd (finalize_loop e ds kept s)) = targetMap s"
  "nextDep (snd (finalize_loop e ds kept s)) = nextDep s"
  "effectHeap (snd (finalize_loop e ds kept s)) = effectHeap s"
  "activeEffect (snd (finalize_loop e ds kept s)) = activeEffect s"
  "shouldTrack (snd (finalize_loop e ds kept s)) = shouldTrack s"
  "trackStack (snd (finalize_loop e ds kept s)) = trackStack s"
  "effectTrackDepth (snd (finalize_loop e ds kept s)) = effectTrackDepth s"
  "trackOpBit (snd (finalize_loop e ds kept s)) = trackOpBit s"
  "trace (snd (finalize_loop e ds kept s)) = trace s"
  by (induction ds arbitrary: kept s; simp add: Let_def)+


subsection \<open>The fields of an effect that no operation writes\<close>

definition config :: "effect \<Rightarrow> bool \<times> bool \<times> bool \<times> bool \<times> cmd list" where
  "config x = (computed x, allowRecurse x, scheduler x, onStop x, fn x)"

definition same_config :: "state \<Rightarrow> state \<Rightarrow> bool" where
  "same_config s s' = (\<forall>e. config (effectHeap s' e) = config (effectHeap s e))"

lemma config_updates [simp]:
  "config (x\<lparr>deps := ds\<rparr>) = config x"
  "config (x\<lparr>parent := p\<rparr>) = config x"
  "config (x\<lparr>active := a\<rparr>) = config x"
  "config (x\<lparr>deferStop := b\<rparr>) = config x"
  by (simp_all add: config_def)

lemma cleanupEffect_fields [simp]:
  "targetMap (cleanupEffect e s) = targetMap s"
  "nextDep (cleanupEffect e s) = nextDep s"
  "effectHeap (cleanupEffect e s) = (effectHeap s)(e := (effectHeap s e)\<lparr>deps := []\<rparr>)"
  "activeEffect (cleanupEffect e s) = activeEffect s"
  "shouldTrack (cleanupEffect e s) = shouldTrack s"
  "trackStack (cleanupEffect e s) = trackStack s"
  "effectTrackDepth (cleanupEffect e s) = effectTrackDepth s"
  "trackOpBit (cleanupEffect e s) = trackOpBit s"
  "trace (cleanupEffect e s) = trace s"
  by (simp_all add: cleanupEffect_def)

lemma Set_delete_idem [simp]: "Set_delete x (Set_delete x S) = Set_delete x S"
  by (simp add: elems_inject [symmetric] Set_delete.rep_eq)

lemma cleanupEffect_depHeap:
  "depHeap (cleanupEffect e s) d =
     (if d \<in> set (deps (effectHeap s e))
      then (depHeap s d)\<lparr>subs := Set_delete e (subs (depHeap s d))\<rparr> else depHeap s d)"
  by (simp add: cleanupEffect_def foldl_upd_dep_heap)

lemma initDepMarkers_fields [simp]:
  "targetMap (initDepMarkers e s) = targetMap s"
  "nextDep (initDepMarkers e s) = nextDep s"
  "effectHeap (initDepMarkers e s) = effectHeap s"
  "activeEffect (initDepMarkers e s) = activeEffect s"
  "shouldTrack (initDepMarkers e s) = shouldTrack s"
  "trackStack (initDepMarkers e s) = trackStack s"
  "effectTrackDepth (initDepMarkers e s) = effectTrackDepth s"
  "trackOpBit (initDepMarkers e s) = trackOpBit s"
  "trace (initDepMarkers e s) = trace s"
  by (simp_all add: initDepMarkers_def)

lemma initDepMarkers_depHeap:
  "depHeap (initDepMarkers e s) d =
     (if d \<in> set (deps (effectHeap s e))
      then (depHeap s d)\<lparr>dep_w := dep_w (depHeap s d) OR trackOpBit s\<rparr> else depHeap s d)"
  by (simp add: initDepMarkers_def foldl_upd_dep_heap)

lemma finalizeDepMarkers_fields [simp]:
  "targetMap (finalizeDepMarkers e s) = targetMap s"
  "nextDep (finalizeDepMarkers e s) = nextDep s"
  "activeEffect (finalizeDepMarkers e s) = activeEffect s"
  "shouldTrack (finalizeDepMarkers e s) = shouldTrack s"
  "trackStack (finalizeDepMarkers e s) = trackStack s"
  "effectTrackDepth (finalizeDepMarkers e s) = effectTrackDepth s"
  "trackOpBit (finalizeDepMarkers e s) = trackOpBit s"
  "trace (finalizeDepMarkers e s) = trace s"
  by (simp_all add: finalizeDepMarkers_def split_beta)

lemma finalizeDepMarkers_effectHeap:
  "effectHeap (finalizeDepMarkers e s) =
     (effectHeap s)(e := (effectHeap s e)\<lparr>deps := fst (finalize_loop e (deps (effectHeap s e)) [] s)\<rparr>)"
  by (simp add: finalizeDepMarkers_def split_beta)

lemma stop_config: "config (effectHeap (stop e s) e') = config (effectHeap s e')"
  by (simp add: stop_def Let_def)

lemma trackEffects_config: "config (effectHeap (trackEffects d a s) e') = config (effectHeap s e')"
  by (simp add: trackEffects_def Let_def split_beta)

lemma depFor_effectHeap: "effectHeap (snd (depFor t k s)) = effectHeap s"
  by (simp add: depFor_def createDep_def Let_def split: option.splits)

lemma track_config: "config (effectHeap (track t ty k s) e') = config (effectHeap s e')"
  by (simp add: track_def split_beta trackEffects_config depFor_effectHeap split: option.splits)

lemma run_enter_config: "config (effectHeap (run_enter e s) e') = config (effectHeap s e')"
  by (simp add: run_enter_def Let_def)

lemma run_finally_config: "config (effectHeap (run_finally e l s) e') = config (effectHeap s e')"
  by (simp add: run_finally_def Let_def stop_config finalizeDepMarkers_effectHeap)

lemma step_closed_same_config: "step_closed same_config"
  unfolding step_closed_def same_config_def
  by (simp add: track_config stop_config run_enter_config run_finally_config
      pauseTracking_def enableTracking_def resetTracking_def split: list.splits)


lemma triggerEffect_same_config:
  "triggerEffect B k e s = Some (c, s') \<Longrightarrow> same_config s s'"
  using triggerEffect_closed [OF step_closed_same_config run_closed [OF step_closed_same_config]] .

lemma same_config_computed: "same_config s s' \<Longrightarrow> computed (effectHeap s' e) = computed (effectHeap s e)"
  unfolding same_config_def config_def by (metis prod.inject)

lemma triggerEffects_loop_each:
  "triggerEffects_loop B k b es s =
     triggerEffect_each B k (filter (\<lambda>e. computed (effectHeap s e) = b) es) s"
proof (induction es arbitrary: s)
  case Nil
  show ?case by simp
next
  case (Cons e es)
  show ?case
  proof (cases "computed (effectHeap s e) = b")
    case False
    then show ?thesis by (simp add: Cons.IH)
  next
    case True
    show ?thesis
    proof (cases "triggerEffect B k e s")
      case None
      with True show ?thesis by simp
    next
      case (Some r)
      obtain c s1 where r: "r = (c, s1)" by (cases r)
      from Some r have "same_config s s1" by (simp add: triggerEffect_same_config)
      then have "(\<lambda>e. computed (effectHeap s1 e) = b) = (\<lambda>e. computed (effectHeap s e) = b)"
        by (simp add: same_config_computed)
      with True Some r show ?thesis by (cases c) (simp_all add: Cons.IH)
    qed
  qed
qed

lemma triggerEffect_each_append:
  "triggerEffect_each B k (xs @ ys) s =
     (case triggerEffect_each B k xs s of
        None \<Rightarrow> None
      | Some (Normal, s') \<Rightarrow> triggerEffect_each B k ys s'
      | Some (Thrown, s') \<Rightarrow> Some (Thrown, s'))"
proof (induction xs arbitrary: s)
  case Nil
  show ?case by simp
next
  case (Cons x xs)
  show ?case by (simp add: Cons.IH split: option.splits completion.splits)
qed

lemma triggerEffect_each_same_config:
  "triggerEffect_each B k es s = Some (c, s') \<Longrightarrow> same_config s s'"
proof (induction es arbitrary: s)
  case Nil
  then show ?case by (simp add: same_config_def)
next
  case (Cons e es)
  from Cons.prems obtain c1 s1 where e1: "triggerEffect B k e s = Some (c1, s1)"
    by (auto split: option.splits)
  from triggerEffect_same_config [OF e1] have r1: "same_config s s1" .
  show ?case
  proof (cases c1)
    case Normal
    with Cons.prems e1 have "triggerEffect_each B k es s1 = Some (c, s')" by simp
    from Cons.IH [OF this] r1 show ?thesis by (simp add: same_config_def)
  next
    case Thrown
    with Cons.prems e1 r1 show ?thesis by simp
  qed
qed

lemma triggerEffects_each:
  "triggerEffects B k es s = triggerEffect_each B k (trigger_order s es) s"
proof (cases "triggerEffect_each B k (filter (\<lambda>e. computed (effectHeap s e)) es) s")
  case None
  then show ?thesis
    by (simp add: triggerEffects.simps triggerEffects_loop_each trigger_order_def
        triggerEffect_each_append)
next
  case (Some r)
  obtain c s1 where r: "r = (c, s1)" by (cases r)
  from Some r have "same_config s s1" by (simp add: triggerEffect_each_same_config)
  then have "(\<lambda>e. computed (effectHeap s1 e) = False) = (\<lambda>e. \<not> computed (effectHeap s e))"
    by (simp add: same_config_computed)
  with Some r show ?thesis
    by (cases c) (simp_all add: triggerEffects.simps triggerEffects_loop_each trigger_order_def
        triggerEffect_each_append)
qed

lemma distinct_trigger_effects: "distinct (trigger_effects s ds)"
  by (simp add: trigger_effects_def dep_effects_def split: list.splits option.splits)

lemma set_trigger_effects: "set (trigger_effects s ds) = (\<Union>d\<in>set ds. set (dep_effects s d))"
  by (simp add: trigger_effects_def Set_of_list.rep_eq set_add_all split: list.splits)

lemma distinct_trigger_order: "distinct es \<Longrightarrow> distinct (trigger_order s es)"
  by (auto simp: trigger_order_def)

lemma set_trigger_order: "set (trigger_order s es) = set es"
  by (auto simp: trigger_order_def)

subsection \<open>The selection for the length of an array\<close>

lemma length_select_strings:
  "(\<forall>(k, d)\<in>set kds. \<exists>str. k = KStr str) \<Longrightarrow>
   length_select B len kds acc =
     Some (acc @ map (\<lambda>(k, d). Some d)
       (filter (\<lambda>(k, d). k = KStr ''length'' \<or> key_ge B k len = Some True) kds))"
proof (induction kds arbitrary: acc)
  case Nil
  show ?case by simp
next
  case (Cons p kds)
  obtain k d where p: "p = (k, d)" by (cases p)
  from Cons.prems p obtain str where k: "k = KStr str" by auto
  from Cons.prems have "\<forall>(k, d)\<in>set kds. \<exists>str. k = KStr str" by simp
  note IH = Cons.IH [OF this]
  show ?case by (simp add: p k IH)
qed

lemma array_read_targetMap:
  "\<exists>m. targetMap array_read_state arr = Some m
     \<and> entries m = [(KStr ''length'', 0), (KStr ''2'', 1), (KStr ''01'', 2), (KStr ''foo'', 3)]"
  by (simp add: array_read_state_def arr_def engine_defs cong: let_weak_cong prod.case_cong_weak)

subsection \<open>Membership and the effects' own lists\<close>

lemma finalize_loop_subscribed_mono:
  "subscribed (snd (finalize_loop e ds kept s)) x d \<Longrightarrow> subscribed s x d"
proof (induction ds arbitrary: kept s)
  case Nil
  then show ?case by simp
next
  case (Cons d0 ds)
  from Cons.prems have "subscribed (snd (finalize_loop e ds
      (if wasTracked s d0 \<and> \<not> newTracked s d0 then kept else kept @ [d0])
      (upd_dep d0 (\<lambda>dp. dp\<lparr>dep_n := dep_n dp AND NOT (trackOpBit s)\<rparr>)
        (upd_dep d0 (\<lambda>dp. dp\<lparr>dep_w := dep_w dp AND NOT (trackOpBit s)\<rparr>)
          (if wasTracked s d0 \<and> \<not> newTracked s d0
           then upd_dep d0 (\<lambda>dp. dp\<lparr>subs := Set_delete e (subs dp)\<rparr>) s else s))))) x d"
    by (simp add: Let_def)
  from Cons.IH [OF this] show ?case
    by (auto simp: subscribed_def split: if_splits)
qed

lemma finalize_loop_subscribed_other:
  "x \<noteq> e \<Longrightarrow> subscribed (snd (finalize_loop e ds kept s)) x d = subscribed s x d"
proof (induction ds arbitrary: kept s)
  case Nil
  then show ?case by simp
next
  case (Cons d0 ds)
  show ?case
    using Cons.prems by (simp add: Let_def Cons.IH [OF Cons.prems]) (auto simp: subscribed_def)
qed

lemma finalize_loop_kept_mono: "set kept \<subseteq> set (fst (finalize_loop e ds kept s))"
proof (induction ds arbitrary: kept s)
  case Nil
  show ?case by simp
next
  case (Cons d0 ds)
  show ?case
    using Cons.IH [of "kept @ [d0]"] Cons.IH [of kept]
    by (auto simp: Let_def)
qed

lemma finalize_loop_kept_member:
  "subscribed (snd (finalize_loop e ds kept s)) e d \<Longrightarrow> d \<in> set ds
   \<Longrightarrow> d \<in> set (fst (finalize_loop e ds kept s))"
proof (induction ds arbitrary: kept s)
  case Nil
  then show ?case by simp
next
  case (Cons d0 ds)
  let ?stale = "wasTracked s d0 \<and> \<not> newTracked s d0"
  let ?kept = "if ?stale then kept else kept @ [d0]"
  let ?s3 = "upd_dep d0 (\<lambda>dp. dp\<lparr>dep_n := dep_n dp AND NOT (trackOpBit s)\<rparr>)
        (upd_dep d0 (\<lambda>dp. dp\<lparr>dep_w := dep_w dp AND NOT (trackOpBit s)\<rparr>)
          (if ?stale then upd_dep d0 (\<lambda>dp. dp\<lparr>subs := Set_delete e (subs dp)\<rparr>) s else s))"
  have unf: "finalize_loop e (d0 # ds) kept s = finalize_loop e ds ?kept ?s3"
    by (simp add: Let_def)
  from Cons.prems(1) have sub: "subscribed (snd (finalize_loop e ds ?kept ?s3)) e d"
    by (simp only: unf)
  show ?case
  proof (cases "d \<in> set ds")
    case True
    from Cons.IH [OF sub True] show ?thesis by (simp only: unf)
  next
    case False
    with Cons.prems(2) have d: "d = d0" by simp
    from finalize_loop_subscribed_mono [OF sub] have "subscribed ?s3 e d0" by (simp add: d)
    then have "\<not> ?stale" by (auto simp: subscribed_def split: if_splits)
    then have "d0 \<in> set ?kept" by auto
    with finalize_loop_kept_mono [of ?kept e ds ?s3] show ?thesis
      by (simp only: unf d) blast
  qed
qed


lemma subscribed_other_fields [simp]:
  "subscribed (s\<lparr>targetMap := tm\<rparr>) x d = subscribed s x d"
  "subscribed (s\<lparr>nextDep := nd\<rparr>) x d = subscribed s x d"
  "subscribed (s\<lparr>effectHeap := eh\<rparr>) x d = subscribed s x d"
  "subscribed (s\<lparr>activeEffect := a\<rparr>) x d = subscribed s x d"
  "subscribed (s\<lparr>shouldTrack := b\<rparr>) x d = subscribed s x d"
  "subscribed (s\<lparr>trackStack := ts\<rparr>) x d = subscribed s x d"
  "subscribed (s\<lparr>effectTrackDepth := i\<rparr>) x d = subscribed s x d"
  "subscribed (s\<lparr>trackOpBit := w\<rparr>) x d = subscribed s x d"
  "subscribed (s\<lparr>trace := tr\<rparr>) x d = subscribed s x d"
  by (simp_all add: subscribed_def)

lemma subscribed_upd_effect [simp]: "subscribed (upd_effect e f s) x d = subscribed s x d"
  by (simp add: subscribed_def)

lemma cleanupEffect_subscribed:
  "subscribed (cleanupEffect e s) x d =
     (subscribed s x d \<and> \<not> (x = e \<and> d \<in> set (deps (effectHeap s e))))"
  by (auto simp: subscribed_def cleanupEffect_depHeap)

lemma initDepMarkers_subscribed [simp]: "subscribed (initDepMarkers e s) x d = subscribed s x d"
  by (simp add: subscribed_def initDepMarkers_depHeap)

lemma finalizeDepMarkers_subscribed_mono:
  "subscribed (finalizeDepMarkers e s) x d \<Longrightarrow> subscribed s x d"
  using finalize_loop_subscribed_mono [of e "deps (effectHeap s e)" "[]" s x d]
  by (simp add: finalizeDepMarkers_def split_beta)

lemma finalizeDepMarkers_subscribed_other:
  "x \<noteq> e \<Longrightarrow> subscribed (finalizeDepMarkers e s) x d = subscribed s x d"
  using finalize_loop_subscribed_other [of x e "deps (effectHeap s e)" "[]" s d]
  by (simp add: finalizeDepMarkers_def split_beta)

lemma finalizeDepMarkers_kept:
  assumes "subscribed (finalizeDepMarkers e s) e d" and "d \<in> set (deps (effectHeap s e))"
  shows "d \<in> set (deps (effectHeap (finalizeDepMarkers e s) e))"
  using finalize_loop_kept_member [of e "deps (effectHeap s e)" "[]" s d] assms
  by (simp add: finalizeDepMarkers_def split_beta)

lemma finalizeDepMarkers_deps_other:
  "x \<noteq> e \<Longrightarrow> deps (effectHeap (finalizeDepMarkers e s) x) = deps (effectHeap s x)"
  by (simp add: finalizeDepMarkers_effectHeap)

lemma mirrored_finalizeDepMarkers: "mirrored s \<Longrightarrow> mirrored (finalizeDepMarkers e s)"
  unfolding mirrored_def
proof (intro allI impI)
  fix x d
  assume m: "\<forall>e d. subscribed s e d \<longrightarrow> d \<in> set (deps (effectHeap s e))"
    and sub: "subscribed (finalizeDepMarkers e s) x d"
  from finalizeDepMarkers_subscribed_mono [OF sub] m have d: "d \<in> set (deps (effectHeap s x))"
    by blast
  show "d \<in> set (deps (effectHeap (finalizeDepMarkers e s) x))"
  proof (cases "x = e")
    case True
    with sub d finalizeDepMarkers_kept show ?thesis by blast
  next
    case False
    with d show ?thesis by (simp add: finalizeDepMarkers_deps_other)
  qed
qed

lemma mirrored_cleanupEffect: "mirrored s \<Longrightarrow> mirrored (cleanupEffect e s)"
  unfolding mirrored_def by (auto simp: cleanupEffect_subscribed)

lemma mirrored_upd_effect:
  "mirrored s \<Longrightarrow> deps (f (effectHeap s e)) = deps (effectHeap s e) \<Longrightarrow> mirrored (upd_effect e f s)"
  unfolding mirrored_def by auto

lemma mirrored_other_fields [simp]:
  "mirrored (s\<lparr>targetMap := tm\<rparr>) = mirrored s"
  "mirrored (s\<lparr>nextDep := nd\<rparr>) = mirrored s"
  "mirrored (s\<lparr>activeEffect := a\<rparr>) = mirrored s"
  "mirrored (s\<lparr>shouldTrack := b\<rparr>) = mirrored s"
  "mirrored (s\<lparr>trackStack := ts\<rparr>) = mirrored s"
  "mirrored (s\<lparr>effectTrackDepth := i\<rparr>) = mirrored s"
  "mirrored (s\<lparr>trackOpBit := w\<rparr>) = mirrored s"
  "mirrored (s\<lparr>trace := tr\<rparr>) = mirrored s"
  by (simp_all add: mirrored_def subscribed_def)

lemma mirrored_stop: "mirrored s \<Longrightarrow> mirrored (stop e s)"
  by (auto simp: stop_def Let_def intro!: mirrored_upd_effect mirrored_cleanupEffect)

lemma mirrored_initDepMarkers: "mirrored s \<Longrightarrow> mirrored (initDepMarkers e s)"
  by (simp add: mirrored_def)

lemma mirrored_run_enter: "mirrored s \<Longrightarrow> mirrored (run_enter e s)"
  by (auto simp: run_enter_def Let_def
      intro!: mirrored_initDepMarkers mirrored_cleanupEffect mirrored_upd_effect)

lemma mirrored_run_finally: "mirrored s \<Longrightarrow> mirrored (run_finally e l s)"
  by (auto simp: run_finally_def Let_def
      intro!: mirrored_stop mirrored_upd_effect mirrored_finalizeDepMarkers)


lemma depFor_old: "slot s t k = Some d \<Longrightarrow> depFor t k s = (d, s)"
  by (auto simp: slot_def depFor_def split: option.splits)

lemma depFor_new:
  assumes "slot s t k = None"
  shows "fst (depFor t k s) = nextDep s"
    and "depHeap (snd (depFor t k s)) =
      (depHeap s)(nextDep s := \<lparr>subs = Set_of_list [], dep_w = 0, dep_n = 0\<rparr>)"
    and "nextDep (snd (depFor t k s)) = Suc (nextDep s)"
    and "slot (snd (depFor t k s)) t' k' =
      (if t' = t \<and> k' = k then Some (nextDep s) else slot s t' k')"
  using assms
  by (auto simp: slot_def depFor_def createDep_def split: option.splits)

lemma depFor_fields [simp]:
  "effectHeap (snd (depFor t k s)) = effectHeap s"
  "activeEffect (snd (depFor t k s)) = activeEffect s"
  "shouldTrack (snd (depFor t k s)) = shouldTrack s"
  "trackStack (snd (depFor t k s)) = trackStack s"
  "effectTrackDepth (snd (depFor t k s)) = effectTrackDepth s"
  "trackOpBit (snd (depFor t k s)) = trackOpBit s"
  "trace (snd (depFor t k s)) = trace s"
  by (simp_all add: depFor_def createDep_def split: option.splits)

lemma depFor_subscribed:
  "subscribed (snd (depFor t k s)) x d =
     (subscribed s x d \<and> \<not> (slot s t k = None \<and> d = nextDep s))"
proof (cases "slot s t k")
  case None
  then show ?thesis by (simp add: subscribed_def depFor_new)
next
  case (Some d')
  then show ?thesis by (simp add: depFor_old)
qed

lemma mirrored_depFor: "mirrored s \<Longrightarrow> mirrored (snd (depFor t k s))"
  unfolding mirrored_def by (simp add: depFor_subscribed)

lemma trackEffects_fields [simp]:
  "targetMap (trackEffects d a s) = targetMap s"
  "nextDep (trackEffects d a s) = nextDep s"
  "activeEffect (trackEffects d a s) = activeEffect s"
  "shouldTrack (trackEffects d a s) = shouldTrack s"
  "trackStack (trackEffects d a s) = trackStack s"
  "effectTrackDepth (trackEffects d a s) = effectTrackDepth s"
  "trackOpBit (trackEffects d a s) = trackOpBit s"
  "trace (trackEffects d a s) = trace s"
  by (simp_all add: trackEffects_def Let_def split_beta)

lemma mirrored_trackEffects: "mirrored s \<Longrightarrow> mirrored (trackEffects d a s)"
  unfolding mirrored_def
  by (auto simp: trackEffects_def subscribed_def split: if_splits)

lemma mirrored_track: "mirrored s \<Longrightarrow> mirrored (track t ty k s)"
  by (auto simp: track_def split_beta mirrored_trackEffects mirrored_depFor split: option.splits)

lemma step_closed_mirrored: "step_closed (\<lambda>s s'. mirrored s \<longrightarrow> mirrored s')"
  unfolding step_closed_def
  by (simp add: mirrored_track mirrored_stop mirrored_run_enter mirrored_run_finally
      pauseTracking_def enableTracking_def resetTracking_def split: list.splits)



lemma run_mirrored: "mirrored s \<Longrightarrow> run B k e s = Some (c, s') \<Longrightarrow> mirrored s'"
  using run_closed [OF step_closed_mirrored, of B k] unfolding run_closed_def by blast



lemma finalizeDepMarkers_effect_other_fields [simp]:
  "active (effectHeap (finalizeDepMarkers e s) x) = active (effectHeap s x)"
  "parent (effectHeap (finalizeDepMarkers e s) x) = parent (effectHeap s x)"
  "deferStop (effectHeap (finalizeDepMarkers e s) x) = deferStop (effectHeap s x)"
  by (simp_all add: finalizeDepMarkers_effectHeap)

section \<open>The claims\<close>

subsection \<open>C1: one call of each effect, the computed ones first\<close>

text \<open>
  C1.  One call of \<open>trigger\<close> calls \<open>triggerEffect\<close> on the effects of
  \<open>trigger_order\<close>, one after the other.  In that list every effect subscribed to one
  of the selected sets stands exactly once, also when it is subscribed to several of
  them, and every computed effect stands before every effect that is not computed.
  (\<open>triggerEffect\<close> runs the effect or calls its scheduler, or skips it when it is the
  active effect and may not recurse.)
\<close>

theorem trigger_each_once_computed_first:
  "trigger B k t ty key newValue s =
     (case trigger_deps B s t ty key newValue of
        NeverTracked \<Rightarrow> Some (Normal, s)
      | TypeError \<Rightarrow> Some (Thrown, s)
      | Selected ds \<Rightarrow> triggerEffect_each B k (trigger_order s (trigger_effects s ds)) s)
   \<and> (\<forall>ds. distinct (trigger_order s (trigger_effects s ds))
        \<and> set (trigger_order s (trigger_effects s ds)) = (\<Union>d\<in>set ds. set (dep_effects s d))
        \<and> (\<exists>cs ps. trigger_order s (trigger_effects s ds) = cs @ ps
              \<and> (\<forall>e\<in>set cs. computed (effectHeap s e))
              \<and> (\<forall>e\<in>set ps. \<not> computed (effectHeap s e))))"
proof (intro conjI allI)
  show "trigger B k t ty key newValue s =
     (case trigger_deps B s t ty key newValue of
        NeverTracked \<Rightarrow> Some (Normal, s)
      | TypeError \<Rightarrow> Some (Thrown, s)
      | Selected ds \<Rightarrow> triggerEffect_each B k (trigger_order s (trigger_effects s ds)) s)"
    by (simp add: trigger.simps triggerEffects_each split: selection.splits)
next
  fix ds
  show "distinct (trigger_order s (trigger_effects s ds))"
    by (simp add: distinct_trigger_order distinct_trigger_effects)
  show "set (trigger_order s (trigger_effects s ds)) = (\<Union>d\<in>set ds. set (dep_effects s d))"
    by (simp add: set_trigger_order set_trigger_effects)
  show "\<exists>cs ps. trigger_order s (trigger_effects s ds) = cs @ ps
      \<and> (\<forall>e\<in>set cs. computed (effectHeap s e))
      \<and> (\<forall>e\<in>set ps. \<not> computed (effectHeap s e))"
    unfolding trigger_order_def
    by (intro exI [of _ "filter (\<lambda>e. computed (effectHeap s e)) (trigger_effects s ds)"]
        exI [of _ "filter (\<lambda>e. \<not> computed (effectHeap s e)) (trigger_effects s ds)"]) simp
qed

theorem trigger_each_once_computed_first_witness:
  "trigger_deps js_decimal shared_state obj ADD (Some (KStr ''a'')) (VNum (Val 1)) =
     Selected [Some 0, Some 1]
   \<and> dep_effects shared_state (Some 0) = [1, 2] \<and> dep_effects shared_state (Some 1) = [1, 2]
   \<and> trigger_order shared_state (trigger_effects shared_state [Some 0, Some 1]) = [2, 1]
   \<and> trigger js_decimal 0 obj ADD (Some (KStr ''a'')) (VNum (Val 1)) shared_state =
       Some (Normal, shared_state\<lparr>trace := [SchedulerCalled 2, SchedulerCalled 1]\<rparr>)"
proof -
  have sel: "trigger_deps js_decimal shared_state obj ADD (Some (KStr ''a'')) (VNum (Val 1)) =
     Selected [Some 0, Some 1]"
    by (simp add: trigger_deps_def shared_state_def shared_program_def obj_def isArray_def
        isMap_def ITERATE_KEY_def engine_defs cong: let_weak_cong prod.case_cong_weak)
  have d0: "dep_effects shared_state (Some 0) = [Suc 0, 2]"
    by (simp add: dep_effects_def shared_state_def shared_program_def obj_def
        ITERATE_KEY_def engine_defs cong: let_weak_cong prod.case_cong_weak)
  have d1: "dep_effects shared_state (Some (Suc 0)) = [Suc 0, 2]"
    by (simp add: dep_effects_def shared_state_def shared_program_def obj_def
        ITERATE_KEY_def engine_defs cong: let_weak_cong prod.case_cong_weak)
  have c: "computed (effectHeap shared_state 2)" "\<not> computed (effectHeap shared_state (Suc 0))"
    "scheduler (effectHeap shared_state 2)" "scheduler (effectHeap shared_state (Suc 0))"
    "activeEffect shared_state = None" "trace shared_state = []"
    by (simp_all add: shared_state_def shared_program_def obj_def
        ITERATE_KEY_def engine_defs cong: let_weak_cong prod.case_cong_weak)
  have ord: "trigger_order shared_state (trigger_effects shared_state [Some 0, Some 1]) = [2, 1]"
    by (simp add: trigger_order_def trigger_effects_def d0 d1 c Set_of_list.rep_eq)
  from trigger_each_once_computed_first
    [of js_decimal 0 obj ADD "Some (KStr ''a'')" "VNum (Val 1)" shared_state]
  have "trigger js_decimal 0 obj ADD (Some (KStr ''a'')) (VNum (Val 1)) shared_state =
     (case trigger_deps js_decimal shared_state obj ADD (Some (KStr ''a'')) (VNum (Val 1)) of
        NeverTracked \<Rightarrow> Some (Normal, shared_state)
      | TypeError \<Rightarrow> Some (Thrown, shared_state)
      | Selected ds \<Rightarrow>
          triggerEffect_each js_decimal 0 (trigger_order shared_state (trigger_effects shared_state ds))
            shared_state)"
    by (rule conjunct1)
  then have "trigger js_decimal 0 obj ADD (Some (KStr ''a'')) (VNum (Val 1)) shared_state =
      triggerEffect_each js_decimal 0 [2, 1] shared_state"
    by (simp only: sel selection.case ord)
  also have "\<dots> = Some (Normal, shared_state\<lparr>trace := [SchedulerCalled 2, SchedulerCalled 1]\<rparr>)"
    by (simp add: triggerEffect.simps c)
  finally show ?thesis using sel d0 d1 ord by simp
qed

subsection \<open>C8: the guard against an effect nested in itself\<close>

text \<open>
  C8 (as amended).  For every active effect \<open>e\<close>: when \<open>run\<close> is called on \<open>e\<close> while
  \<open>e\<close> is on the chain of \<open>parent\<close> links that starts at the active effect, the call
  returns at once, normally, and the state of the engine is what it was: the body of
  \<open>e\<close> is not executed and nothing is tracked.
\<close>

theorem run_guard_returns:
  "active (effectHeap s e) \<Longrightarrow> on_parent_chain (effectHeap s) (activeEffect s) e = Some True
   \<Longrightarrow> run B (Suc k) e s = Some (Normal, s)"
  by simp

theorem run_guard_returns_witness:
  "active (effectHeap guard_state 1)
   \<and> on_parent_chain (effectHeap guard_state) (activeEffect guard_state) 1 = Some True
   \<and> run js_decimal (Suc 0) 1 guard_state = Some (Normal, guard_state)"
proof -
  have a: "active (effectHeap guard_state 1)"
    by (simp add: guard_state_def engine_defs)
  have b: "on_parent_chain (effectHeap guard_state) (activeEffect guard_state) 1 = Some True"
    by (simp add: guard_state_def engine_defs)
  from run_guard_returns [OF a b] a b show ?thesis by blast
qed

text \<open>
  C8 as stated fails for an effect that is no longer active: \<open>run\<close> tests \<open>active\<close>
  before it walks the chain, and calls \<open>fn\<close> when the effect is stopped.  In
  \<open>stopped_inside_state\<close> effect 1 is on the chain, and its \<open>run\<close> executes its body (the
  nested call of effect 2 is the one the guard skips).  The whole run of
  \<open>stop_inside_program\<close> executes the body of effect 1 twice, once inside itself.
\<close>

theorem run_guard_inactive_counterexample:
  "on_parent_chain (effectHeap stopped_inside_state) (activeEffect stopped_inside_state) 1 = Some True
   \<and> run js_decimal (Suc (Suc 0)) 1 stopped_inside_state
       = Some (Normal, stopped_inside_state\<lparr>trace := [Output 7]\<rparr>)
   \<and> stopped_inside_state\<lparr>trace := [Output 7]\<rparr> \<noteq> stopped_inside_state
   \<and> (case run js_decimal (Suc (Suc (Suc (Suc 0)))) 1 stop_inside_program of
        None \<Rightarrow> False
      | Some (c, s') \<Rightarrow> c = Normal \<and> trace s' = [Output 7, Output 7])"
proof -
  have t: "trace stopped_inside_state = []"
    by (simp add: stopped_inside_state_def stop_inside_program_def engine_defs)
  have "on_parent_chain (effectHeap stopped_inside_state) (activeEffect stopped_inside_state) 1
      = Some True"
    by (simp add: stopped_inside_state_def stop_inside_program_def engine_defs)
  moreover have "run js_decimal (Suc (Suc 0)) 1 stopped_inside_state
       = Some (Normal, stopped_inside_state\<lparr>trace := [Output 7]\<rparr>)"
    by (simp add: stopped_inside_state_def stop_inside_program_def engine_defs)
  moreover have "stopped_inside_state\<lparr>trace := [Output 7]\<rparr> \<noteq> stopped_inside_state"
  proof
    assume "stopped_inside_state\<lparr>trace := [Output 7]\<rparr> = stopped_inside_state"
    then have "trace (stopped_inside_state\<lparr>trace := [Output 7]\<rparr>) = trace stopped_inside_state"
      by simp
    with t show False by simp
  qed
  moreover have "case run js_decimal (Suc (Suc (Suc (Suc 0)))) 1 stop_inside_program of
        None \<Rightarrow> False
      | Some (c, s') \<Rightarrow> c = Normal \<and> trace s' = [Output 7, Output 7]"
    by (simp add: stop_inside_program_def engine_defs)
  ultimately show ?thesis by blast
qed

subsection \<open>C3: which sets a change of the length of an array selects\<close>

text \<open>
  C3 (as amended).  For every array target and every trigger of a kind other than
  \<open>CLEAR\<close> whose key is \<open>length\<close>, when every key registered for the object is a string
  and \<open>Number(newValue)\<close> is a number: the selection is, in the order of registration,
  the set registered at \<open>length\<close> and every set registered at a key whose conversion to
  a number is greater than or equal to the new length, and no other set of the object.
\<close>

theorem trigger_deps_array_length:
  assumes "isArray t" and "ty \<noteq> CLEAR" and "targetMap s t = Some m"
    and "ToNumber B newValue = Some newLength"
    and "\<forall>(k, d)\<in>set (entries m). \<exists>str. k = KStr str"
  shows "trigger_deps B s t ty (Some (KStr ''length'')) newValue =
     Selected (map (\<lambda>(k, d). Some d)
       (filter (\<lambda>(k, d). k = KStr ''length'' \<or> key_ge B k newLength = Some True) (entries m)))"
  using assms by (simp add: trigger_deps_def length_select_strings)

theorem trigger_deps_array_length_witness:
  "isArray arr \<and> SET \<noteq> CLEAR \<and> ToNumber js_decimal (VNum (Val 2)) = Some (Val 2)
   \<and> trigger_deps js_decimal array_read_state arr SET (Some (KStr ''length'')) (VNum (Val 2)) =
       Selected [Some 0, Some 1]"
proof -
  from array_read_targetMap obtain m where m: "targetMap array_read_state arr = Some m"
    and e: "entries m = [(KStr ''length'', 0), (KStr ''2'', 1), (KStr ''01'', 2), (KStr ''foo'', 3)]"
    by blast
  have a: "isArray arr" by (simp add: isArray_def arr_def)
  have b: "SET \<noteq> CLEAR" by simp
  have c: "ToNumber js_decimal (VNum (Val 2)) = Some (Val 2)" by simp
  have d: "\<forall>(k, d)\<in>set (entries m). \<exists>str. k = KStr str" by (simp add: e)
  from trigger_deps_array_length [OF a b m c d] a c show ?thesis
    by (simp add: e builtin_defs num_ge_def)
qed

text \<open>
  C3 as stated fails: the comparison \<open>key >= newLength\<close> converts the key to a number,
  so a set registered at a key that is not an element index is selected when the key
  reads as a number.  Setting the length to 1 selects the set of the property \<open>01\<close>.
\<close>

theorem trigger_deps_array_length_counterexample:
  "trigger_deps js_decimal array_read_state arr SET (Some (KStr ''length'')) (VNum (Val 1)) =
     Selected [Some 0, Some 1, Some 2]
   \<and> map_option entries (targetMap array_read_state arr) =
       Some [(KStr ''length'', 0), (KStr ''2'', 1), (KStr ''01'', 2), (KStr ''foo'', 3)]
   \<and> \<not> isIntegerKey js_decimal (KStr ''01'')"
proof -
  from array_read_targetMap obtain m where m: "targetMap array_read_state arr = Some m"
    and e: "entries m = [(KStr ''length'', 0), (KStr ''2'', 1), (KStr ''01'', 2), (KStr ''foo'', 3)]"
    by blast
  have a: "isArray arr" by (simp add: isArray_def arr_def)
  have "trigger_deps js_decimal array_read_state arr SET (Some (KStr ''length'')) (VNum (Val 1)) =
     Selected [Some 0, Some 1, Some 2]"
    using a by (simp add: trigger_deps_def m e builtin_defs num_ge_def)
  moreover have "\<not> isIntegerKey js_decimal (KStr ''01'')"
    by (simp add: builtin_defs)
  ultimately show ?thesis by (simp add: m e)
qed

subsection \<open>C9: adding a property that is not an index to an array\<close>

text \<open>
  C9.  For every array target, a trigger of kind \<open>ADD\<close> whose key is defined and is
  not an integer key selects the set of that key and nothing else: neither the set of
  the iteration key nor the set of \<open>length\<close>.  The claim is about the last branch of
  \<open>trigger\<close>, where the key is not \<open>length\<close>: an array owns \<open>length\<close>, so a write to it
  is never an \<open>ADD\<close>.
\<close>

theorem trigger_deps_array_add_other_key:
  assumes "isArray t" and "targetMap s t = Some m" and "k \<noteq> KStr ''length''"
    and "\<not> isIntegerKey B k"
  shows "trigger_deps B s t ADD (Some k) newValue = Selected [Map_get m k]"
  using assms by (simp add: trigger_deps_def)

theorem trigger_deps_array_add_other_key_witness:
  "isArray arr \<and> KStr ''foo'' \<noteq> KStr ''length'' \<and> \<not> isIntegerKey js_decimal (KStr ''foo'')
   \<and> trigger_deps js_decimal array_read_state arr ADD (Some (KStr ''foo'')) (VNum (Val 5)) =
       Selected [Some 3]"
proof -
  from array_read_targetMap obtain m where m: "targetMap array_read_state arr = Some m"
    and e: "entries m = [(KStr ''length'', 0), (KStr ''2'', 1), (KStr ''01'', 2), (KStr ''foo'', 3)]"
    by blast
  have a: "isArray arr" by (simp add: isArray_def arr_def)
  have b: "KStr ''foo'' \<noteq> KStr ''length''" by simp
  have c: "\<not> isIntegerKey js_decimal (KStr ''foo'')" by (simp add: builtin_defs)
  from trigger_deps_array_add_other_key [OF a m b c] a b c show ?thesis
    by (simp add: Map_get_def e)
qed

subsection \<open>C2: when the write trap triggers\<close>

lemmas setter_defs =
  createSetter_def set_rejected_def set_into_ref_def set_unwraps_def set_oldValue_def
  set_value_def set_hadKey_def plain_env_def hasChanged_def Object_is_def

text \<open>
  C2 (as amended).  For every write through the mutable write trap whose receiver is
  the wrapper of the target, unless the old value is a ref-like box and the new value
  is not (then the trap returns before the write, see the two exits): when the key
  existed, \<open>trigger\<close> is called with \<open>SET\<close> if and only if the new value differs from
  the old one as \<open>Object.is\<close> tells (both unwrapped where the trap unwraps them), and it
  is called with \<open>ADD\<close> when the key did not exist.  \<open>NaN\<close> does not differ from \<open>NaN\<close>;
  \<open>-0\<close> and \<open>+0\<close> differ.
\<close>

theorem set_trap_trigger:
  assumes "toRaw E receiver = VObj t"
    and "\<not> set_rejected E h t k v" and "\<not> set_into_ref E shallow h t k v"
  shows "snd (snd (createSetter E B shallow h t k v receiver)) =
      (if set_hadKey E B h t k then
         (if hasChanged (set_value E shallow v) (set_oldValue E shallow h t k v)
          then [CTrigger t SET (Some k) (set_value E shallow v)] else [])
       else [CTrigger t ADD (Some k) (set_value E shallow v)])
    \<and> hasChanged x y = (x \<noteq> y)
    \<and> \<not> hasChanged (VNum NaN) (VNum NaN)
    \<and> hasChanged (VNum NegZero) (VNum (Val 0))
    \<and> hasChanged (VNum (Val 0)) (VNum NegZero)"
  using assms by (simp add: createSetter_def hasChanged_def Object_is_def split_beta)

theorem set_trap_trigger_witness:
  "snd (snd (createSetter plain_env js_decimal False boxed_heap obj (KStr ''n'') (VNum NaN) obj_wrapper)) = []
   \<and> snd (snd (createSetter plain_env js_decimal False boxed_heap obj (KStr ''z'') (VNum NegZero) obj_wrapper))
       = [CTrigger obj SET (Some (KStr ''z'')) (VNum NegZero)]
   \<and> snd (snd (createSetter plain_env js_decimal False boxed_heap obj (KStr ''b'') (VNum NaN) obj_wrapper))
       = [CTrigger obj ADD (Some (KStr ''b'')) (VNum NaN)]"
proof -
  have r: "toRaw plain_env obj_wrapper = VObj obj"
    by (simp add: plain_env_def obj_wrapper_def)
  have n: "\<not> set_rejected plain_env boxed_heap obj (KStr ''n'') (VNum NaN)"
    "\<not> set_into_ref plain_env False boxed_heap obj (KStr ''n'') (VNum NaN)"
    by (simp_all add: setter_defs boxed_heap_def)
  have z: "\<not> set_rejected plain_env boxed_heap obj (KStr ''z'') (VNum NegZero)"
    "\<not> set_into_ref plain_env False boxed_heap obj (KStr ''z'') (VNum NegZero)"
    by (simp_all add: setter_defs boxed_heap_def)
  have b: "\<not> set_rejected plain_env boxed_heap obj (KStr ''b'') (VNum NaN)"
    "\<not> set_into_ref plain_env False boxed_heap obj (KStr ''b'') (VNum NaN)"
    by (simp_all add: setter_defs boxed_heap_def)
  from set_trap_trigger [OF r n, of js_decimal] set_trap_trigger [OF r z, of js_decimal]
    set_trap_trigger [OF r b, of js_decimal]
  show ?thesis
    by (simp add: set_hadKey_def set_value_def set_oldValue_def set_unwraps_def plain_env_def
        hasChanged_def Object_is_def boxed_heap_def isArray_def obj_def)
qed

text \<open>
  C2 as stated fails where the property holds a read-only box, such as a computed
  value: the key exists and the number 2 differs from the box, and the trap returns
  \<open>false\<close> with no write and no call of \<open>trigger\<close>.
\<close>

theorem set_trap_readonly_box_counterexample:
  "hasOwn plain_env boxed_heap obj (KStr ''c'')
   \<and> toRaw plain_env obj_wrapper = VObj obj
   \<and> hasChanged (VNum (Val 2)) (Get plain_env boxed_heap obj (KStr ''c''))
   \<and> createSetter plain_env js_decimal False boxed_heap obj (KStr ''c'') (VNum (Val 2)) obj_wrapper
       = (False, boxed_heap, [])"
  by (simp add: setter_defs boxed_heap_def obj_wrapper_def)

subsection \<open>C10: a write over a read-only box\<close>

text \<open>
  C10.  For every write through the mutable write trap, deep or shallow: when the value
  at the key is a read-only ref-like box and the new value is no ref-like box, the trap
  returns \<open>false\<close>, leaves the heap as it is and calls no \<open>trigger\<close>.
\<close>

theorem set_trap_rejects_readonly_ref:
  assumes "isReadonly E (Get E h t k)" and "isRef E (Get E h t k)" and "\<not> isRef E v"
  shows "createSetter E B shallow h t k v receiver = (False, h, [])"
  using assms by (simp add: createSetter_def set_rejected_def)

theorem set_trap_rejects_readonly_ref_witness:
  "isReadonly plain_env (Get plain_env boxed_heap obj (KStr ''c''))
   \<and> isRef plain_env (Get plain_env boxed_heap obj (KStr ''c''))
   \<and> \<not> isRef plain_env (VStr ''x'')
   \<and> createSetter plain_env js_decimal True boxed_heap obj (KStr ''c'') (VStr ''x'') obj_wrapper
       = (False, boxed_heap, [])"
proof -
  have a: "isReadonly plain_env (Get plain_env boxed_heap obj (KStr ''c''))"
    by (simp add: plain_env_def boxed_heap_def)
  have b: "isRef plain_env (Get plain_env boxed_heap obj (KStr ''c''))"
    by (simp add: plain_env_def boxed_heap_def)
  have c: "\<not> isRef plain_env (VStr ''x'')"
    by (simp add: plain_env_def)
  from set_trap_rejects_readonly_ref [OF a b c] a b c show ?thesis by blast
qed

subsection \<open>C7: the write traps of a read-only wrapper\<close>

text \<open>
  C7.  For every read-only wrapper and every key, the \<open>set\<close> trap and the
  \<open>deleteProperty\<close> trap return \<open>true\<close>, leave the heap (and with it the target) as it
  is, call no \<open>trigger\<close>, and in a development build emit one warning; they return, they
  do not throw.
\<close>

theorem readonly_traps_warn_only:
  "fst (readonly_set dev h t k) = True
   \<and> fst (snd (readonly_set dev h t k)) = h
   \<and> fst (snd (snd (readonly_set dev h t k))) = []
   \<and> (dev \<longrightarrow> snd (snd (snd (readonly_set dev h t k))) = [SetOnReadonly k t])
   \<and> fst (readonly_deleteProperty dev h t k) = True
   \<and> fst (snd (readonly_deleteProperty dev h t k)) = h
   \<and> fst (snd (snd (readonly_deleteProperty dev h t k))) = []
   \<and> (dev \<longrightarrow> snd (snd (snd (readonly_deleteProperty dev h t k))) = [DeleteOnReadonly k t])"
  by (simp add: readonly_set_def readonly_deleteProperty_def)

theorem readonly_traps_warn_only_witness:
  "readonly_set True boxed_heap obj (KStr ''z'') = (True, boxed_heap, [], [SetOnReadonly (KStr ''z'') obj])
   \<and> readonly_deleteProperty True boxed_heap obj (KStr ''z'')
       = (True, boxed_heap, [], [DeleteOnReadonly (KStr ''z'') obj])"
  using readonly_traps_warn_only [of True boxed_heap obj "KStr ''z''"]
  by (simp add: prod_eq_iff)

subsection \<open>C6: stopping an effect from outside and from its own run\<close>



section \<open>One run of an effect whose body reads\<close>

subsection \<open>The marker bits\<close>



lemma marked_clear [simp]: "\<not> marked (w AND NOT b) b"
  by (simp add: marked_def and.assoc)

lemma marked_zero [simp]: "\<not> marked 0 b"
  by (simp add: marked_def)



subsection \<open>What \<open>finalizeDepMarkers\<close> removes\<close>







lemma tracks_Nil [simp]: "tracks [] s = s"
  by (simp add: tracks_def)

lemma tracks_Cons [simp]: "tracks ((t, ty, k) # rs) s = tracks rs (track t ty k s)"
  by (simp add: tracks_def)

lemma read_slots_Nil [simp]: "read_slots [] = {}"
  by (simp add: read_slots_def)

lemma read_slots_Cons [simp]: "read_slots ((t, ty, k) # rs) = insert (t, k) (read_slots rs)"
  by (simp add: read_slots_def)


lemma trackEffects_effect_frame [simp]:
  "active (effectHeap (trackEffects d a s) x) = active (effectHeap s x)"
  "parent (effectHeap (trackEffects d a s) x) = parent (effectHeap s x)"
  "deferStop (effectHeap (trackEffects d a s) x) = deferStop (effectHeap s x)"
  by (simp_all add: trackEffects_def Let_def split_beta)

lemma track_frame [simp]:
  "activeEffect (track t ty k s) = activeEffect s"
  "shouldTrack (track t ty k s) = shouldTrack s"
  "effectTrackDepth (track t ty k s) = effectTrackDepth s"
  "trackOpBit (track t ty k s) = trackOpBit s"
  "active (effectHeap (track t ty k s) x) = active (effectHeap s x)"
  "parent (effectHeap (track t ty k s) x) = parent (effectHeap s x)"
  "deferStop (effectHeap (track t ty k s) x) = deferStop (effectHeap s x)"
  by (simp_all add: track_def split_beta split: option.splits)

lemma tracks_frame [simp]:
  "activeEffect (tracks rs s) = activeEffect s"
  "shouldTrack (tracks rs s) = shouldTrack s"
  "effectTrackDepth (tracks rs s) = effectTrackDepth s"
  "trackOpBit (tracks rs s) = trackOpBit s"
  "active (effectHeap (tracks rs s) x) = active (effectHeap s x)"
  "parent (effectHeap (tracks rs s) x) = parent (effectHeap s x)"
  "deferStop (effectHeap (tracks rs s) x) = deferStop (effectHeap s x)"
  by (induction rs arbitrary: s; simp add: split_paired_all)+

subsection \<open>One read\<close>





lemma depFor_deps [simp]: "deps (effectHeap (snd (depFor t k s)) x) = deps (effectHeap s x)"
  by simp


lemma trackEffects_slot [simp]: "slot (trackEffects d a s) t k = slot s t k"
  by (simp add: slot_def)





subsection \<open>A sequence of reads\<close>






subsection \<open>Entry and exit of the run\<close>



lemma run_enter_frame [simp]:
  "targetMap (run_enter e s) = targetMap s"
  "nextDep (run_enter e s) = nextDep s"
  "activeEffect (run_enter e s) = Some e"
  "shouldTrack (run_enter e s)"
  "effectTrackDepth (run_enter e s) = effectTrackDepth s + 1"
  "trackOpBit (run_enter e s) = shl1 (effectTrackDepth s + 1)"
  "deferStop (effectHeap (run_enter e s) x) = deferStop (effectHeap s x)"
  by (simp_all add: run_enter_def Let_def)



lemma stop_targetMap [simp]: "targetMap (stop e s) = targetMap s"
  by (simp add: stop_def Let_def)

lemma run_finally_targetMap [simp]: "targetMap (run_finally e l s) = targetMap s"
  by (simp add: run_finally_def Let_def)







subsection \<open>The concrete states\<close>








section \<open>Subscriptions after a run\<close>



text \<open>
  C4.  For every effect and slot, at a nesting depth within the marker limit: after a
  run of the effect completes, the effect is a member of the dependency set of the slot
  if and only if that run read the slot.  The engine breaks this after an effect has
  been stopped, in the middle of its run, by an effect that it calls: \<open>stop\<close> defers
  the cleanup only when the effect is the active one, so \<open>cleanupEffect\<close> empties the
  \<open>deps\<close> of the running effect, and \<open>finalizeDepMarkers\<close>, which clears the bits on the
  entries of \<open>deps\<close>, leaves the \<open>newTracked\<close> bit of that level on the sets the run had
  read.  In \<open>stale_marker_program\<close> effect 1 reads \<open>a\<close> and calls effect 2, which stops
  effect 1.  After the run of effect 1, effect 3 runs at depth 1 and reads \<open>a\<close>:
  \<open>trackEffects\<close> finds the set newly tracked and does not add the effect.  When the run
  of effect 3 has completed, effect 3 is not a member of the dependency set of the slot
  it read, and a write to \<open>a\<close> runs nothing.
\<close>

theorem stale_marker_loses_subscription:
  "(case run js_decimal (Suc (Suc 0)) 1 stale_marker_program of
      None \<Rightarrow> False
    | Some (c1, s1) \<Rightarrow>
        c1 = Normal \<and> activeEffect s1 = None \<and> effectTrackDepth s1 = 0
        \<and> (case run js_decimal (Suc 0) 3 s1 of
              None \<Rightarrow> False
            | Some (c2, s2) \<Rightarrow>
                c2 = Normal \<and> trace s2 = [Output 3]
                \<and> slot s2 obj (KStr ''a'') = Some 0 \<and> \<not> subscribed s2 3 0
                \<and> trigger js_decimal (Suc 0) obj SET (Some (KStr ''a'')) (VNum (Val 1)) s2
                    = Some (Normal, s2)))"
  by (simp add: stale_marker_program_def obj_def slot_def subscribed_def engine_defs
      trigger.simps triggerEffects.simps trigger_deps_def trigger_effects_def dep_effects_def
      isArray_def isMap_def
      cong: let_weak_cong prod.case_cong_weak)

end
